theory Spec2Isabelle
  imports Complex_Main "HOL-Library.Signed_Division"
begin

section \<open>Block-wise processing of I/Q recordings: the programs of ost\_radio\_tools\<close>

text \<open>
  The repository holds one C program per processing mode:
  \<^verbatim>\<open>calculate_amplitude.c\<close>, \<^verbatim>\<open>calculate_power.c\<close>, \<^verbatim>\<open>calculate_amplitude_sum.c\<close>,
  \<^verbatim>\<open>calculate_power_spectrum.c\<close>, \<^verbatim>\<open>calculate_integrated_power_spectrum.c\<close> and
  \<^verbatim>\<open>calculate_spectrogram.c\<close>. Each \<^verbatim>\<open>main\<close> is embedded below from the point where the
  variable \<^verbatim>\<open>samples_per_block\<close> has received its value (from \<^verbatim>\<open>atoi\<close> on the argument or on the
  fifth field of the file name); the usage check and the string handling before that point
  are not part of the model. \<^verbatim>\<open>rawreader.c\<close>, an earlier form of the amplitude-sum program
  that checks nothing, is not embedded.

  Files are modelled by what \<^verbatim>\<open>main\<close> observes: the input is the list of float32 values that
  \<^verbatim>\<open>fread\<close> can deliver, every call of the C library that may fail is a field of the
  environment, and everything a run does to its files is recorded in a trace of events.
  Diagnostics on \<^verbatim>\<open>stdout\<close>/\<^verbatim>\<open>stderr\<close> and \<^verbatim>\<open>fclose\<close>/\<^verbatim>\<open>free\<close> are left out.
\<close>

subsection \<open>Arithmetic of the platform\<close>

text \<open>
  The programs compute in C \<^verbatim>\<open>float\<close> (type \<open>'f\<close>) and \<^verbatim>\<open>double\<close> (type \<open>'d\<close>) and call
  \<^verbatim>\<open>libm\<close> and FFTW. None of these is code of the repository, so they are a parameter of
  every definition: a record of the operations, one field per C operator, conversion or
  library function that the sources use. Complex values are pairs (real part, imaginary part).
\<close>

record ('f, 'd) numerics =
  f_lit :: "rat \<Rightarrow> 'f"                 \<comment> \<open>a literal with suffix \<^verbatim>\<open>f\<close>, e.g. \<^verbatim>\<open>0.5f\<close>\<close>
  f_add :: "'f \<Rightarrow> 'f \<Rightarrow> 'f"
  f_sub :: "'f \<Rightarrow> 'f \<Rightarrow> 'f"
  f_mul :: "'f \<Rightarrow> 'f \<Rightarrow> 'f"
  f_div :: "'f \<Rightarrow> 'f \<Rightarrow> 'f"
  f_sqrt :: "'f \<Rightarrow> 'f"                   \<comment> \<open>\<^verbatim>\<open>sqrtf\<close>\<close>
  f_cos :: "'f \<Rightarrow> 'f"                    \<comment> \<open>\<^verbatim>\<open>cosf\<close>\<close>
  f_log10 :: "'f \<Rightarrow> 'f"                  \<comment> \<open>\<^verbatim>\<open>log10f\<close>\<close>
  f_of_size :: "nat \<Rightarrow> 'f"               \<comment> \<open>conversion \<^verbatim>\<open>size_t\<close> to \<^verbatim>\<open>float\<close>\<close>
  f_of_d :: "'d \<Rightarrow> 'f"                   \<comment> \<open>conversion \<^verbatim>\<open>double\<close> to \<^verbatim>\<open>float\<close>\<close>
  d_of_f :: "'f \<Rightarrow> 'd"                   \<comment> \<open>conversion \<^verbatim>\<open>float\<close> to \<^verbatim>\<open>double\<close>\<close>
  d_of_int :: "int \<Rightarrow> 'd"                \<comment> \<open>conversion \<^verbatim>\<open>int\<close> to \<^verbatim>\<open>double\<close>\<close>
  d_lit :: "rat \<Rightarrow> 'd"                  \<comment> \<open>a literal without suffix, e.g. \<^verbatim>\<open>M_PI\<close>\<close>
  d_add :: "'d \<Rightarrow> 'd \<Rightarrow> 'd"
  d_mul :: "'d \<Rightarrow> 'd \<Rightarrow> 'd"
  d_div :: "'d \<Rightarrow> 'd \<Rightarrow> 'd"
  d_sqrt :: "'d \<Rightarrow> 'd"                   \<comment> \<open>\<^verbatim>\<open>sqrt\<close>\<close>
  fftwf_dft :: "('f \<times> 'f) list \<Rightarrow> ('f \<times> 'f) list"
    \<comment> \<open>\<^verbatim>\<open>fftwf_execute\<close> of a plan of \<^verbatim>\<open>fftwf_plan_dft_1d(n, in, out, FFTW_FORWARD, _)\<close>\<close>
  fftwf_c2r :: "('f \<times> 'f) list \<Rightarrow> 'f list"
    \<comment> \<open>\<^verbatim>\<open>fftwf_execute\<close> of a plan of \<^verbatim>\<open>fftwf_plan_dft_c2r_1d(n, in, out, _)\<close>\<close>
  fftw_dft :: "('d \<times> 'd) list \<Rightarrow> ('d \<times> 'd) list"
    \<comment> \<open>\<^verbatim>\<open>fftw_execute\<close> of a plan of \<^verbatim>\<open>fftw_plan_dft_1d(n, in, out, FFTW_FORWARD, _)\<close>\<close>

subsection \<open>Files, environment, traces\<close>

datatype stream = Infile | Outfile | Sumfile

datatype ('f, 'd) event =
    Fopen stream                \<comment> \<open>a call of \<^verbatim>\<open>fopen\<close>, successful or not\<close>
  | Ftell                       \<comment> \<open>\<^verbatim>\<open>fseek\<close> to the end, \<^verbatim>\<open>ftell\<close>, \<^verbatim>\<open>rewind\<close> on the input\<close>
  | Fread nat nat               \<comment> \<open>floats requested from the input, floats obtained\<close>
  | Put_header nat              \<comment> \<open>four bytes written to the output with \<^verbatim>\<open>sizeof(int)\<close>\<close>
  | Put_f32 'f                  \<comment> \<open>one float written to the output with \<^verbatim>\<open>fwrite\<close>\<close>
  | Put_line_f nat 'f           \<comment> \<open>a text line: index and a \<^verbatim>\<open>float\<close> value\<close>
  | Put_line_d nat 'd           \<comment> \<open>a text line: index and a \<^verbatim>\<open>double\<close> value\<close>

datatype exit = Exit int | Undefined_behaviour

record 'f env =
  in_file :: "'f list option"   \<comment> \<open>\<open>None\<close>: the input cannot be opened\<close>
  ftell_result :: int           \<comment> \<open>what \<^verbatim>\<open>ftell\<close> returns at the end of the input\<close>
  name_fits :: bool             \<comment> \<open>the output file name fits its buffer\<close>
  out_ok :: bool                \<comment> \<open>the output file can be opened\<close>
  sum_ok :: bool                \<comment> \<open>the file of sums can be opened (\<^verbatim>\<open>calculate_power.c\<close>)\<close>
  alloc_ok :: bool              \<comment> \<open>\<^verbatim>\<open>malloc\<close>/\<^verbatim>\<open>calloc\<close> and the FFTW allocations succeed\<close>
  plan_ok :: bool               \<comment> \<open>FFTW returns a plan\<close>

record ('f, 'd) state =
  input :: "'f list"                   \<comment> \<open>what is left of the input stream\<close>
  trace :: "('f, 'd) event list"       \<comment> \<open>events so far, oldest first\<close>
  num_blocks :: nat                    \<comment> \<open>the block counter of the main loop\<close>

record ('f, 'd) outcome =
  status :: exit
  events :: "('f, 'd) event list"
  blocks :: nat                        \<comment> \<open>the block counter when \<^verbatim>\<open>main\<close> returns\<close>

definition size_t :: "nat \<Rightarrow> nat" where
  \<comment> \<open>arithmetic in \<^verbatim>\<open>size_t\<close>, taken to be 64 bits wide\<close>
  "size_t x = x mod 2 ^ 64"

definition size_t_of_int :: "int \<Rightarrow> nat" where
  \<comment> \<open>conversion of a signed integer to \<^verbatim>\<open>size_t\<close>\<close>
  "size_t_of_int x = nat (x mod 2 ^ 64)"

definition fread :: "nat \<Rightarrow> ('f, 'd) state \<Rightarrow> 'f list \<times> ('f, 'd) state" where
  \<comment> \<open>\<^verbatim>\<open>fread(buf, sizeof(float), cnt, f)\<close>: the floats obtained, and the state after the call.
      A short read consumes what is left.\<close>
  "fread cnt st =
     (take cnt (input st),
      st\<lparr>input := drop cnt (input st),
         trace := trace st @ [Fread cnt (min cnt (length (input st)))]\<rparr>)"

definition start :: "'f list \<Rightarrow> ('f, 'd) event list \<Rightarrow> ('f, 'd) state" where
  "start s tr = \<lparr>input = s, trace = tr, num_blocks = 0\<rparr>"

definition finish :: "int \<Rightarrow> ('f, 'd) state \<Rightarrow> ('f, 'd) outcome" where
  "finish rc st = \<lparr>status = Exit rc, events = trace st, blocks = num_blocks st\<rparr>"

definition abort :: "('f, 'd) event list \<Rightarrow> ('f, 'd) outcome" where
  \<comment> \<open>\<^verbatim>\<open>return 1\<close> before the main loop\<close>
  "abort tr = \<lparr>status = Exit 1, events = tr, blocks = 0\<rparr>"

subsection \<open>\<^verbatim>\<open>calculate_amplitude.c\<close>\<close>

definition amplitude_block :: "('f, 'd) numerics \<Rightarrow> nat \<Rightarrow> 'f list \<Rightarrow> 'f list" where
  \<comment> \<open>the inner \<^verbatim>\<open>for\<close> loop: one amplitude per I/Q pair, in the order written\<close>
  "amplitude_block A spb block =
     map (\<lambda>i. f_sqrt A (f_add A (f_mul A (block ! (i * 2)) (block ! (i * 2)))
                               (f_mul A (block ! (i * 2 + 1)) (block ! (i * 2 + 1)))))
         [0..<spb]"

partial_function (option) amplitude_loop ::
  "('f, 'd) numerics \<Rightarrow> nat \<Rightarrow> ('f, 'd) state \<Rightarrow> ('f, 'd) state option" where
  "amplitude_loop A spb st =
     (case fread (size_t (spb * 2)) st of (block, st1) \<Rightarrow>
        if length block \<noteq> size_t (spb * 2) then Some st1
        else amplitude_loop A spb
               (st1\<lparr>trace := trace st1 @ map Put_f32 (amplitude_block A spb block),
                    num_blocks := num_blocks st1 + 1\<rparr>))"

definition amplitude_main ::
  "('f, 'd) numerics \<Rightarrow> 'f env \<Rightarrow> nat \<Rightarrow> ('f, 'd) outcome option" where
  "amplitude_main A env spb =
     (if spb < 2 then Some (abort [])
      else case in_file env of
        None \<Rightarrow> Some (abort [Fopen Infile])
      | Some s \<Rightarrow>
          if \<not> name_fits env then Some (abort [Fopen Infile])
          else if \<not> out_ok env then Some (abort [Fopen Infile, Fopen Outfile])
          else if \<not> alloc_ok env then Some (abort [Fopen Infile, Fopen Outfile])
          else map_option (finish 0)
                 (amplitude_loop A spb (start s [Fopen Infile, Fopen Outfile])))"

subsection \<open>\<^verbatim>\<open>calculate_power.c\<close>\<close>

datatype OutputType = OUTPUT_SUM | OUTPUT_RAW | OUTPUT_BOTH

definition sample_power :: "('f, 'd) numerics \<Rightarrow> 'f list \<Rightarrow> nat \<Rightarrow> 'f" where
  \<comment> \<open>\<^verbatim>\<open>i_val * i_val + q_val * q_val\<close> for sample \<open>i\<close> of the buffer\<close>
  "sample_power A buffer i =
     f_add A (f_mul A (buffer ! (2 * i)) (buffer ! (2 * i)))
             (f_mul A (buffer ! (2 * i + 1)) (buffer ! (2 * i + 1)))"

definition power_step ::
  "('f, 'd) numerics \<Rightarrow> OutputType \<Rightarrow> 'f list \<Rightarrow> 'f \<times> ('f, 'd) event list \<Rightarrow> nat
     \<Rightarrow> 'f \<times> ('f, 'd) event list" where
  \<comment> \<open>one pass of the inner \<^verbatim>\<open>for\<close> loop, on the pair (\<^verbatim>\<open>block_sum\<close>, events written)\<close>
  "power_step A output_type buffer acc i =
     (let power = sample_power A buffer i;
          written = (if output_type = OUTPUT_RAW \<or> output_type = OUTPUT_BOTH
                     then snd acc @ [Put_f32 power] else snd acc);
          block_sum = (if output_type = OUTPUT_SUM \<or> output_type = OUTPUT_BOTH
                       then f_add A (fst acc) power else fst acc)
      in (block_sum, written))"

definition power_block ::
  "('f, 'd) numerics \<Rightarrow> OutputType \<Rightarrow> nat \<Rightarrow> nat \<Rightarrow> 'f list \<Rightarrow> ('f, 'd) event list" where
  \<comment> \<open>the body of the \<^verbatim>\<open>while\<close> loop for block number \<open>k\<close>: what it writes\<close>
  "power_block A output_type spb k buffer =
     (case foldl (power_step A output_type buffer) (f_lit A 0, []) [0..<spb] of
        (block_sum, written) \<Rightarrow>
          if output_type = OUTPUT_SUM \<or> output_type = OUTPUT_BOTH
          then written @ [Put_line_f k block_sum] else written)"

partial_function (option) power_loop ::
  "('f, 'd) numerics \<Rightarrow> OutputType \<Rightarrow> nat \<Rightarrow> ('f, 'd) state \<Rightarrow> ('f, 'd) state option" where
  "power_loop A output_type spb st =
     (case fread (size_t (2 * spb)) st of (buffer, st1) \<Rightarrow>
        if length buffer = size_t (2 * spb)
        then power_loop A output_type spb
               (st1\<lparr>trace := trace st1 @ power_block A output_type spb (num_blocks st1) buffer,
                    num_blocks := num_blocks st1 + 1\<rparr>)
        else Some st1)"

definition power_main ::
  "('f, 'd) numerics \<Rightarrow> 'f env \<Rightarrow> OutputType \<Rightarrow> nat \<Rightarrow> ('f, 'd) outcome option" where
  "power_main A env output_type spb =
     (case in_file env of
        None \<Rightarrow> Some (abort [Fopen Infile])
      | Some s \<Rightarrow>
          if spb = 0 then Some (abort [Fopen Infile])
          else if \<not> alloc_ok env then Some (abort [Fopen Infile])
          else
            let raw = (output_type = OUTPUT_RAW \<or> output_type = OUTPUT_BOTH);
                sum = (output_type = OUTPUT_SUM \<or> output_type = OUTPUT_BOTH);
                tr1 = [Fopen Infile] @ (if raw then [Fopen Outfile] else [])
            in if raw \<and> \<not> out_ok env then Some (abort tr1)
               else let tr2 = tr1 @ (if sum then [Fopen Sumfile] else [])
                    in if sum \<and> \<not> sum_ok env then Some (abort tr2)
                       else map_option (finish 0)
                              (power_loop A output_type spb (start s tr2)))"

subsection \<open>\<^verbatim>\<open>calculate_integrated_power_spectrum.c\<close>\<close>

definition iq_complex :: "nat \<Rightarrow> 'f list \<Rightarrow> ('f \<times> 'f) list" where
  \<comment> \<open>\<^verbatim>\<open>in[i] = iq_data[2*i] + I * iq_data[2*i + 1]\<close> for every sample of the block: the
      complex number with these two parts (for finite values)\<close>
  "iq_complex n iq_data = map (\<lambda>i. (iq_data ! (2 * i), iq_data ! (2 * i + 1))) [0..<n]"

definition accumulate :: "('f, 'd) numerics \<Rightarrow> 'f list \<Rightarrow> 'f list \<Rightarrow> nat \<Rightarrow> 'f list" where
  \<comment> \<open>\<^verbatim>\<open>power = out[i] * out[i]; power_spectrum[i] += power\<close>\<close>
  "accumulate A out power_spectrum i =
     power_spectrum[i := f_add A (power_spectrum ! i) (f_mul A (out ! i) (out ! i))]"

definition process_block :: "('f, 'd) numerics \<Rightarrow> nat \<Rightarrow> 'f list \<Rightarrow> 'f list \<Rightarrow> 'f list" where
  \<comment> \<open>\<^verbatim>\<open>process_block(config, iq_data, power_spectrum)\<close> with
      \<^verbatim>\<open>config->samples_per_block\<close> = \<open>n\<close>: the accumulator after the call\<close>
  "process_block A n iq_data power_spectrum =
     foldl (accumulate A (fftwf_c2r A (iq_complex n iq_data))) power_spectrum [0..<n]"

partial_function (option) integrated_loop ::
  "('f, 'd) numerics \<Rightarrow> nat \<Rightarrow> ('f, 'd) state \<times> 'f list
     \<Rightarrow> (('f, 'd) state \<times> 'f list) option" where
  "integrated_loop A n sp =
     (case fread (size_t (2 * n)) (fst sp) of (iq_data, st1) \<Rightarrow>
        if length iq_data = size_t (2 * n)
        then integrated_loop A n
               (st1\<lparr>num_blocks := num_blocks st1 + 1\<rparr>, process_block A n iq_data (snd sp))
        else Some (st1, snd sp))"

definition average :: "('f, 'd) numerics \<Rightarrow> nat \<Rightarrow> nat \<Rightarrow> 'f list \<Rightarrow> 'f list" where
  \<comment> \<open>\<^verbatim>\<open>if (total_blocks > 0) for (i...) power_spectrum[i] /= total_blocks\<close>\<close>
  "average A n total_blocks power_spectrum =
     (if total_blocks > 0
      then foldl (\<lambda>ps i. ps[i := f_div A (ps ! i) (f_of_size A total_blocks)])
             power_spectrum [0..<n]
      else power_spectrum)"

definition integrated_main ::
  "('f, 'd) numerics \<Rightarrow> 'f env \<Rightarrow> int \<Rightarrow> ('f, 'd) outcome option" where
  "integrated_main A env samples_per_block =
     (if samples_per_block \<le> 0 then Some (abort [])
      else if \<not> alloc_ok env \<or> \<not> plan_ok env then Some (abort [])
      else case in_file env of
        None \<Rightarrow> Some (abort [Fopen Infile])
      | Some s \<Rightarrow>
          let n = nat samples_per_block
          in case integrated_loop A n (start s [Fopen Infile], replicate n (f_lit A 0)) of
               None \<Rightarrow> None
             | Some (st, power_spectrum) \<Rightarrow>
                 let averaged = average A n (num_blocks st) power_spectrum;
                     st1 = st\<lparr>trace := trace st @ [Fopen Outfile]\<rparr>
                 in if \<not> out_ok env then Some (finish 1 st1)
                    else Some (finish 0
                           (st1\<lparr>trace := trace st1
                                   @ map (\<lambda>i. Put_line_f i (averaged ! i)) [0..<n]\<rparr>)))"

subsection \<open>\<^verbatim>\<open>calculate_spectrogram.c\<close>\<close>

definition int_of_size_t :: "nat \<Rightarrow> int" where
  \<comment> \<open>conversion of \<^verbatim>\<open>size_t\<close> to a 32-bit \<^verbatim>\<open>int\<close>\<close>
  "int_of_size_t x = (if x mod 2 ^ 32 < 2 ^ 31 then int (x mod 2 ^ 32)
                      else int (x mod 2 ^ 32) - 2 ^ 32)"

definition M_PI :: rat where
  "M_PI = 3.14159265358979323846"

definition hanning :: "('f, 'd) numerics \<Rightarrow> int \<Rightarrow> 'f list" where
  \<comment> \<open>the window loop of \<^verbatim>\<open>init_fftw(n)\<close>:
      \<^verbatim>\<open>window[i] = 0.5f * (1.0f - cosf(2.0f * M_PI * i / (n - 1)))\<close>\<close>
  "hanning A n =
     map (\<lambda>i. f_mul A (f_lit A 0.5)
                (f_sub A (f_lit A 1)
                   (f_cos A (f_of_d A
                      (d_div A (d_mul A (d_mul A (d_of_f A (f_lit A 2)) (d_lit A M_PI))
                                        (d_of_int A (int i)))
                               (d_of_int A (n - 1)))))))
         [0..<nat n]"

definition spectrogram_row ::
  "('f, 'd) numerics \<Rightarrow> 'f list \<Rightarrow> 'f list \<Rightarrow> int \<Rightarrow> 'f list" where
  \<comment> \<open>\<^verbatim>\<open>process_block(data, block, n, outfile)\<close> with \<^verbatim>\<open>data->window\<close> = \<open>window\<close>:
      the values written, in order\<close>
  "spectrogram_row A window block n =
     (let out = fftwf_dft A
                  (map (\<lambda>i. (f_mul A (block ! i) (window ! i), f_lit A 0)) [0..<nat n])
      in map (\<lambda>i. let real = fst (out ! i); imag = snd (out ! i);
                      power = f_add A (f_mul A real real) (f_mul A imag imag)
                  in f_mul A (f_lit A 10) (f_log10 A (f_add A power (f_lit A (1 / 10 ^ 10)))))
             [0..<nat (n sdiv 2 + 1)])"

partial_function (option) spectrogram_loop ::
  "('f, 'd) numerics \<Rightarrow> 'f list \<Rightarrow> nat \<Rightarrow> ('f, 'd) state \<Rightarrow> ('f, 'd) state option" where
  "spectrogram_loop A window spb st =
     (case fread spb st of (block, st1) \<Rightarrow>
        if length block \<noteq> spb then Some st1
        else spectrogram_loop A window spb
               (st1\<lparr>trace := trace st1
                       @ map Put_f32 (spectrogram_row A window block (int_of_size_t spb)),
                    num_blocks := num_blocks st1 + 1\<rparr>))"

definition spectrogram_main ::
  "('f, 'd) numerics \<Rightarrow> 'f env \<Rightarrow> nat \<Rightarrow> ('f, 'd) outcome option" where
  "spectrogram_main A env spb =
     (if spb < 2 then Some (abort [])
      else case in_file env of
        None \<Rightarrow> Some (abort [Fopen Infile])
      | Some s \<Rightarrow>
          if \<not> name_fits env then Some (abort [Fopen Infile])
          else if \<not> out_ok env then Some (abort [Fopen Infile, Fopen Outfile])
          else
            let tr = [Fopen Infile, Fopen Outfile, Put_header (spb mod 2 ^ 32)]
            in if \<not> alloc_ok env \<or> \<not> plan_ok env then Some (abort tr)
               else map_option (finish 0)
                      (spectrogram_loop A (hanning A (int_of_size_t spb)) spb (start s tr)))"

subsection \<open>\<^verbatim>\<open>calculate_amplitude_sum.c\<close> and \<^verbatim>\<open>calculate_power_spectrum.c\<close>\<close>

text \<open>
  Both programs declare \<^verbatim>\<open>int samples_per_block\<close>, compute the number of blocks from the size
  of the file, and read one item of \<^verbatim>\<open>sizeof(float) * samples_per_block * 2\<close> bytes per block.
\<close>

definition long_of_size_t :: "nat \<Rightarrow> int" where
  \<comment> \<open>conversion of \<^verbatim>\<open>size_t\<close> to a 64-bit \<^verbatim>\<open>long\<close>\<close>
  "long_of_size_t x = (if x mod 2 ^ 64 < 2 ^ 63 then int (x mod 2 ^ 64)
                       else int (x mod 2 ^ 64) - 2 ^ 64)"

definition number_of_blocks :: "int \<Rightarrow> int \<Rightarrow> int option" where
  \<comment> \<open>\<^verbatim>\<open>total_file_size / sizeof(float) / samples_per_block / 2\<close>, computed in \<^verbatim>\<open>size_t\<close> and
      stored in a \<^verbatim>\<open>long\<close>; \<open>None\<close> is the division by zero\<close>
  "number_of_blocks total_file_size samples_per_block =
     (if size_t_of_int samples_per_block = 0 then None
      else Some (long_of_size_t
             (size_t_of_int total_file_size div 4 div size_t_of_int samples_per_block div 2)))"

definition item_floats :: "int \<Rightarrow> nat" where
  \<comment> \<open>the item size \<^verbatim>\<open>sizeof(float) * samples_per_block * 2\<close>, counted in floats\<close>
  "item_floats samples_per_block =
     size_t (size_t (4 * size_t_of_int samples_per_block) * 2) div 4"

definition amplitude_mean :: "('f, 'd) numerics \<Rightarrow> int \<Rightarrow> 'f list \<Rightarrow> 'd" where
  \<comment> \<open>\<^verbatim>\<open>block_amplitude_sum / samples_per_block\<close> after the inner loop of
      \<^verbatim>\<open>calculate_amplitude_sum.c\<close>\<close>
  "amplitude_mean A samples_per_block sample_buffer =
     d_div A
       (foldl (\<lambda>block_amplitude_sum sample_index.
                 d_add A block_amplitude_sum
                   (d_sqrt A (d_of_f A
                      (f_add A (f_mul A (sample_buffer ! (sample_index * 2 + 0))
                                        (sample_buffer ! (sample_index * 2 + 0)))
                               (f_mul A (sample_buffer ! (sample_index * 2 + 1))
                                        (sample_buffer ! (sample_index * 2 + 1)))))))
              (d_of_int A 0) [0..<nat samples_per_block])
       (d_of_int A samples_per_block)"

function amplitude_sum_loop ::
  "('f, 'd) numerics \<Rightarrow> int \<Rightarrow> int \<Rightarrow> int \<Rightarrow> ('f, 'd) state \<Rightarrow> ('f, 'd) outcome" where
  "amplitude_sum_loop A spb nblocks current_block st =
     (if current_block < nblocks
      then case fread (item_floats spb) st of (sample_buffer, st1) \<Rightarrow>
        if item_floats spb = 0 \<or> length sample_buffer \<noteq> item_floats spb
        then finish 1 st1
        else
          let st2 = st1\<lparr>trace := trace st1
                           @ [Put_line_d (nat current_block) (amplitude_mean A spb sample_buffer)],
                         num_blocks := num_blocks st1 + 1\<rparr>
          in if current_block = 2 ^ 31 - 1
             then \<lparr>status = Undefined_behaviour, events = trace st2, blocks = num_blocks st2\<rparr>
             else amplitude_sum_loop A spb nblocks (current_block + 1) st2
      else finish 0 st)"
  by pat_completeness auto
termination
  by (relation "measure (\<lambda>(A, spb, nblocks, current_block, st). nat (nblocks - current_block))")
     auto

definition amplitude_sum_main ::
  "('f, 'd) numerics \<Rightarrow> 'f env \<Rightarrow> int \<Rightarrow> ('f, 'd) outcome" where
  "amplitude_sum_main A env samples_per_block =
     (if \<not> alloc_ok env then abort []
      else case in_file env of
        None \<Rightarrow> abort [Fopen Infile]
      | Some s \<Rightarrow>
          (case number_of_blocks (ftell_result env) samples_per_block of
             None \<Rightarrow> \<lparr>status = Undefined_behaviour, events = [Fopen Infile, Ftell], blocks = 0\<rparr>
           | Some nblocks \<Rightarrow>
               if \<not> out_ok env then abort [Fopen Infile, Ftell, Fopen Outfile]
               else amplitude_sum_loop A samples_per_block nblocks 0
                      (start s [Fopen Infile, Ftell, Fopen Outfile])))"

definition spectrum_block :: "('f, 'd) numerics \<Rightarrow> int \<Rightarrow> 'f list \<Rightarrow> 'f list" where
  \<comment> \<open>one block of \<^verbatim>\<open>calculate_power_spectrum.c\<close>: the values written, in order\<close>
  "spectrum_block A samples_per_block sample_buffer =
     (let fft_output = fftw_dft A
            (map (\<lambda>i. (d_of_f A (sample_buffer ! (i * 2)), d_of_f A (sample_buffer ! (i * 2 + 1))))
                 [0..<nat samples_per_block])
      in map (\<lambda>i. f_of_d A
                    (d_add A (d_mul A (fst (fft_output ! i)) (fst (fft_output ! i)))
                             (d_mul A (snd (fft_output ! i)) (snd (fft_output ! i)))))
             [0..<nat samples_per_block])"

function power_spectrum_loop ::
  "('f, 'd) numerics \<Rightarrow> int \<Rightarrow> int \<Rightarrow> int \<Rightarrow> ('f, 'd) state \<Rightarrow> ('f, 'd) outcome" where
  "power_spectrum_loop A spb nblocks current_block st =
     (if current_block < nblocks
      then case fread (item_floats spb) st of (sample_buffer, st1) \<Rightarrow>
        if item_floats spb = 0 \<or> length sample_buffer \<noteq> item_floats spb
        then finish 1 st1
        else
          let st2 = st1\<lparr>trace := trace st1 @ map Put_f32 (spectrum_block A spb sample_buffer),
                         num_blocks := num_blocks st1 + 1\<rparr>
          in if current_block = 2 ^ 31 - 1
             then \<lparr>status = Undefined_behaviour, events = trace st2, blocks = num_blocks st2\<rparr>
             else power_spectrum_loop A spb nblocks (current_block + 1) st2
      else finish 0 st)"
  by pat_completeness auto
termination
  by (relation "measure (\<lambda>(A, spb, nblocks, current_block, st). nat (nblocks - current_block))")
     auto

definition power_spectrum_main ::
  "('f, 'd) numerics \<Rightarrow> 'f env \<Rightarrow> int \<Rightarrow> ('f, 'd) outcome" where
  "power_spectrum_main A env samples_per_block =
     (if \<not> alloc_ok env then abort []
      else case in_file env of
        None \<Rightarrow> abort [Fopen Infile]
      | Some s \<Rightarrow>
          (case number_of_blocks (ftell_result env) samples_per_block of
             None \<Rightarrow> \<lparr>status = Undefined_behaviour, events = [Fopen Infile, Ftell], blocks = 0\<rparr>
           | Some nblocks \<Rightarrow>
               if \<not> out_ok env then abort [Fopen Infile, Ftell, Fopen Outfile]
               else power_spectrum_loop A samples_per_block nblocks 0
                      (start s [Fopen Infile, Ftell, Fopen Outfile])))"

subsection \<open>Reading a trace\<close>

definition block_at :: "nat \<Rightarrow> 'a list \<Rightarrow> nat \<Rightarrow> 'a list" where
  \<comment> \<open>block number \<open>k\<close> (zero-based) of a stream cut into blocks of \<open>cnt\<close> values\<close>
  "block_at cnt s k = take cnt (drop (k * cnt) s)"

fun read_of :: "('f, 'd) event \<Rightarrow> (nat \<times> nat) list" where
  "read_of (Fread cnt got) = [(cnt, got)]"
| "read_of _ = []"

definition reads :: "('f, 'd) event list \<Rightarrow> (nat \<times> nat) list" where
  \<comment> \<open>the calls of \<^verbatim>\<open>fread\<close> of a trace: floats requested, floats obtained\<close>
  "reads tr = concat (map read_of tr)"

fun written_of :: "('f, 'd) event \<Rightarrow> ('f, 'd) event list" where
  "written_of (Put_header n) = [Put_header n]"
| "written_of (Put_f32 v) = [Put_f32 v]"
| "written_of (Put_line_f k v) = [Put_line_f k v]"
| "written_of (Put_line_d k v) = [Put_line_d k v]"
| "written_of _ = []"

definition written :: "('f, 'd) event list \<Rightarrow> ('f, 'd) event list" where
  \<comment> \<open>everything a trace writes to its output files, in order\<close>
  "written tr = concat (map written_of tr)"

fun f32_of :: "('f, 'd) event \<Rightarrow> 'f list" where
  "f32_of (Put_f32 v) = [v]"
| "f32_of _ = []"

definition f32_values :: "('f, 'd) event list \<Rightarrow> 'f list" where
  \<comment> \<open>the floats a trace writes with \<^verbatim>\<open>fwrite\<close>, in order\<close>
  "f32_values tr = concat (map f32_of tr)"

fun line_of :: "('f, 'd) event \<Rightarrow> (nat \<times> 'f) list" where
  "line_of (Put_line_f k v) = [(k, v)]"
| "line_of _ = []"

definition text_lines :: "('f, 'd) event list \<Rightarrow> (nat \<times> 'f) list" where
  \<comment> \<open>the text lines of a trace that carry a \<^verbatim>\<open>float\<close>: index and value\<close>
  "text_lines tr = concat (map line_of tr)"

subsection \<open>The accumulator as the specification describes it\<close>

definition process_block_spec ::
  "('f, 'd) numerics \<Rightarrow> nat \<Rightarrow> 'f list \<Rightarrow> 'd list \<Rightarrow> 'd list" where
  \<comment> \<open>not the code: the block step with the accumulation "performed in double precision"
      (specification, section 4.3), the power of a bin still computed in \<^verbatim>\<open>float\<close>\<close>
  "process_block_spec A n iq_data power_spectrum =
     (let out = fftwf_c2r A (iq_complex n iq_data)
      in foldl (\<lambda>ps i. ps[i := d_add A (ps ! i) (d_of_f A (f_mul A (out ! i) (out ! i)))])
           power_spectrum [0..<n])"

subsection \<open>The integrated spectrum as the specification describes it\<close>

definition re_fft_power :: "('f, 'd) numerics \<Rightarrow> nat \<Rightarrow> 'f list \<Rightarrow> nat \<Rightarrow> 'f" where
  \<comment> \<open>not the code: the power of bin \<open>i\<close> of one block as \<^verbatim>\<open>Re(FFT(block))^2\<close> (specification,
      section 4.3), the square of the real part of the forward transform of the block\<close>
  "re_fft_power A n iq_data i =
     (let out = fftwf_dft A (iq_complex n iq_data)
      in f_mul A (fst (out ! i)) (fst (out ! i)))"

definition integrated_spec :: "('f, 'd) numerics \<Rightarrow> nat \<Rightarrow> 'f list \<Rightarrow> nat \<Rightarrow> 'f" where
  \<comment> \<open>not the code: the value of bin \<open>i\<close> for an input \<open>s\<close> as the mean, over the complete blocks
      of \<open>s\<close>, of \<open>re_fft_power\<close>\<close>
  "integrated_spec A n s i =
     f_div A (foldl (f_add A) (f_lit A 0)
                (map (\<lambda>k. re_fft_power A n (block_at (2 * n) s k) i)
                     [0..<length s div (2 * n)]))
             (f_of_size A (length s div (2 * n)))"

subsection \<open>A reference arithmetic\<close>

text \<open>
  One instance of the parameter, used where a statement needs concrete numbers: IEEE 754
  arithmetic with rounding to nearest, ties to even, at 24 significant bits for \<^verbatim>\<open>float\<close> and
  53 for \<^verbatim>\<open>double\<close>. A value is the real number it denotes. The exponent range is unbounded
  and there are no infinities, NaNs or signed zeros (a division by zero gives 0 here); the
  functions of \<^verbatim>\<open>libm\<close> round the exact result, and the transforms round the exact discrete
  Fourier transform, which is what FFTW computes for one and two points, and for four points
  of small integers, where the transform only adds, subtracts and doubles.
\<close>

definition round_even :: "real \<Rightarrow> int" where
  "round_even y =
     (let f = \<lfloor>y\<rfloor>
      in if y - of_int f < 1 / 2 then f
         else if 1 / 2 < y - of_int f then f + 1
         else if even f then f else f + 1)"

definition round_to :: "nat \<Rightarrow> real \<Rightarrow> real" where
  \<comment> \<open>the nearest real with \<open>p\<close> significant bits\<close>
  "round_to p x =
     (if x = 0 then 0
      else let e = \<lfloor>log 2 \<bar>x\<bar>\<rfloor> - (int p - 1)
           in of_int (round_even (x / 2 powr of_int e)) * 2 powr of_int e)"

definition of_pair :: "real \<times> real \<Rightarrow> complex" where
  "of_pair z = Complex (fst z) (snd z)"

definition dft_forward :: "complex list \<Rightarrow> complex list" where
  \<comment> \<open>FFTW's forward transform, not scaled: output \<open>k\<close> is the sum over \<open>j\<close> of
      \<open>xs ! j * exp (- 2 * pi * \<i> * j * k / n)\<close>\<close>
  "dft_forward xs =
     map (\<lambda>k. \<Sum>j<length xs. xs ! j * cis (- (2 * pi * real j * real k / real (length xs))))
         [0..<length xs]"

definition dft_c2r :: "complex list \<Rightarrow> real list" where
  \<comment> \<open>FFTW's complex-to-real transform of \<open>n\<close> points: the backward transform of the
      Hermitian sequence given by its elements \<open>0..n/2\<close>\<close>
  "dft_c2r xs =
     map (\<lambda>k. \<Sum>j<length xs.
                Re ((if 2 * j \<le> length xs then xs ! j else cnj (xs ! (length xs - j)))
                    * cis (2 * pi * real j * real k / real (length xs))))
         [0..<length xs]"

definition ieee :: "(real, real) numerics" where
  "ieee =
     \<lparr>f_lit = (\<lambda>q. round_to 24 (of_rat q)),
      f_add = (\<lambda>x y. round_to 24 (x + y)),
      f_sub = (\<lambda>x y. round_to 24 (x - y)),
      f_mul = (\<lambda>x y. round_to 24 (x * y)),
      f_div = (\<lambda>x y. round_to 24 (x / y)),
      f_sqrt = (\<lambda>x. round_to 24 (sqrt x)),
      f_cos = (\<lambda>x. round_to 24 (cos x)),
      f_log10 = (\<lambda>x. round_to 24 (log 10 x)),
      f_of_size = (\<lambda>n. round_to 24 (real n)),
      f_of_d = (\<lambda>x. round_to 24 x),
      d_of_f = (\<lambda>x. x),
      d_of_int = (\<lambda>i. round_to 53 (of_int i)),
      d_lit = (\<lambda>q. round_to 53 (of_rat q)),
      d_add = (\<lambda>x y. round_to 53 (x + y)),
      d_mul = (\<lambda>x y. round_to 53 (x * y)),
      d_div = (\<lambda>x y. round_to 53 (x / y)),
      d_sqrt = (\<lambda>x. round_to 53 (sqrt x)),
      fftwf_dft = (\<lambda>xs. map (\<lambda>z. (round_to 24 (Re z), round_to 24 (Im z)))
                            (dft_forward (map of_pair xs))),
      fftwf_c2r = (\<lambda>xs. map (round_to 24) (dft_c2r (map of_pair xs))),
      fftw_dft = (\<lambda>xs. map (\<lambda>z. (round_to 53 (Re z), round_to 53 (Im z)))
                           (dft_forward (map of_pair xs)))\<rparr>"

definition hanning_angle :: "int \<Rightarrow> int \<Rightarrow> real" where
  \<comment> \<open>the argument of \<^verbatim>\<open>cosf\<close> for \<^verbatim>\<open>window[i]\<close> with \<open>k = n - 1\<close>, in the reference arithmetic:
      \<^verbatim>\<open>(float)(2.0f * M_PI * i / (n - 1))\<close>\<close>
  "hanning_angle i k = round_to 24 (round_to 53 (round_to 53
       (round_to 53 (2 * round_to 53 (314159265358979323846 / 100000000000000000000))
          * round_to 53 (of_int i)) / round_to 53 (of_int k)))"

definition regular_file :: "real list \<Rightarrow> real env" where
  \<comment> \<open>an input file with the given contents, in an environment where nothing fails\<close>
  "regular_file s =
     \<lparr>in_file = Some s, ftell_result = 4 * int (length s), name_fits = True,
      out_ok = True, sum_ok = True, alloc_ok = True, plan_ok = True\<rparr>"

definition fifo :: "real list \<Rightarrow> real env" where
  \<comment> \<open>the same contents read from a pipe: \<^verbatim>\<open>fseek\<close> fails and \<^verbatim>\<open>ftell\<close> returns \<open>-1\<close>\<close>
  "fifo s = (regular_file s)\<lparr>ftell_result := - 1\<rparr>"

declare amplitude_sum_loop.simps [simp del] power_spectrum_loop.simps [simp del]

definition summary :: "('f, 'd) outcome \<Rightarrow> exit \<times> nat \<times> (nat \<times> nat) list" where
  \<comment> \<open>exit status, blocks processed, and the reads of a run\<close>
  "summary out = (status out, blocks out, reads (events out))"

section \<open>Properties\<close>

subsection \<open>The reading loops\<close>

lemma block_at_0: "block_at cnt s 0 = take cnt s"
  by (simp add: block_at_def)

lemma block_at_Suc: "block_at cnt s (Suc k) = block_at cnt (drop cnt s) k"
  by (simp add: block_at_def add.commute)

lemma length_block_at: "k < length s div cnt \<Longrightarrow> length (block_at cnt s k) = cnt"
proof -
  assume k: "k < length s div cnt"
  then have "Suc k \<le> length s div cnt" by simp
  then have "Suc k * cnt \<le> length s div cnt * cnt"
    by (rule mult_le_mono1)
  also have "\<dots> \<le> length s" by simp
  finally have "k * cnt + cnt \<le> length s" by simp
  then show ?thesis by (simp add: block_at_def)
qed

lemma upt_Suc_shift: "[0..<Suc K] = 0 # map Suc [0..<K]"
  by (simp add: upt_conv_Cons map_Suc_upt del: upt_Suc)

lemma amplitude_loop_run:
  assumes "0 < size_t (spb * 2)"
  shows "amplitude_loop A spb st =
     Some (st\<lparr>input := [],
              trace := trace st
                @ concat (map (\<lambda>k. Fread (size_t (spb * 2)) (size_t (spb * 2))
                                    # map Put_f32 (amplitude_block A spb
                                        (block_at (size_t (spb * 2)) (input st) k)))
                              [0..<length (input st) div size_t (spb * 2)])
                @ [Fread (size_t (spb * 2)) (length (input st) mod size_t (spb * 2))],
              num_blocks := num_blocks st + length (input st) div size_t (spb * 2)\<rparr>)"
  using assms
proof (induction "length (input st)" arbitrary: st rule: less_induct)
  case less
  let ?c = "size_t (spb * 2)"
  show ?case
  proof (cases "length (input st) < ?c")
    case True
    then show ?thesis
      by (subst amplitude_loop.simps) (simp add: fread_def)
  next
    case False
    then have le: "?c \<le> length (input st)" by simp
    let ?st' = "st\<lparr>input := drop ?c (input st),
                   trace := (trace st @ [Fread ?c ?c])
                      @ map Put_f32 (amplitude_block A spb (take ?c (input st))),
                   num_blocks := num_blocks st + 1\<rparr>"
    have "length (input ?st') < length (input st)"
      using le less.prems by simp
    note IH = less.hyps [OF this less.prems]
    have m: "(length (input st) - ?c) mod ?c = length (input st) mod ?c"
      using le by (simp add: le_mod_geq)
    have d: "length (input st) div ?c = Suc ((length (input st) - ?c) div ?c)"
      using le less.prems by (simp add: le_div_geq)
    show ?thesis
      apply (subst amplitude_loop.simps)
      using le less.prems IH
      by (simp add: fread_def min_absorb1 upt_Suc_shift m d
            block_at_0 block_at_Suc o_def del: upt_Suc)
  qed
qed

lemma power_loop_run:
  assumes "0 < size_t (2 * spb)"
  shows "power_loop A ot spb st =
     Some (st\<lparr>input := [],
              trace := trace st
                @ concat (map (\<lambda>k. Fread (size_t (2 * spb)) (size_t (2 * spb))
                                    # power_block A ot spb (num_blocks st + k)
                                        (block_at (size_t (2 * spb)) (input st) k))
                              [0..<length (input st) div size_t (2 * spb)])
                @ [Fread (size_t (2 * spb)) (length (input st) mod size_t (2 * spb))],
              num_blocks := num_blocks st + length (input st) div size_t (2 * spb)\<rparr>)"
  using assms
proof (induction "length (input st)" arbitrary: st rule: less_induct)
  case less
  let ?c = "size_t (2 * spb)"
  show ?case
  proof (cases "length (input st) < ?c")
    case True
    then show ?thesis
      by (subst power_loop.simps) (simp add: fread_def)
  next
    case False
    then have le: "?c \<le> length (input st)" by simp
    let ?st' = "st\<lparr>input := drop ?c (input st),
                   trace := (trace st @ [Fread ?c ?c])
                      @ power_block A ot spb (num_blocks st) (take ?c (input st)),
                   num_blocks := num_blocks st + 1\<rparr>"
    have "length (input ?st') < length (input st)"
      using le less.prems by simp
    note IH = less.hyps [OF this less.prems]
    have m: "(length (input st) - ?c) mod ?c = length (input st) mod ?c"
      using le by (simp add: le_mod_geq)
    have d: "length (input st) div ?c = Suc ((length (input st) - ?c) div ?c)"
      using le less.prems by (simp add: le_div_geq)
    show ?thesis
      apply (subst power_loop.simps)
      using le less.prems IH
      by (simp add: fread_def min_absorb1 upt_Suc_shift m d
            block_at_0 block_at_Suc o_def del: upt_Suc)
  qed
qed

lemma spectrogram_loop_run:
  assumes "0 < spb"
  shows "spectrogram_loop A w spb st =
     Some (st\<lparr>input := [],
              trace := trace st
                @ concat (map (\<lambda>k. Fread spb spb
                                    # map Put_f32 (spectrogram_row A w
                                        (block_at spb (input st) k) (int_of_size_t spb)))
                              [0..<length (input st) div spb])
                @ [Fread spb (length (input st) mod spb)],
              num_blocks := num_blocks st + length (input st) div spb\<rparr>)"
  using assms
proof (induction "length (input st)" arbitrary: st rule: less_induct)
  case less
  show ?case
  proof (cases "length (input st) < spb")
    case True
    then show ?thesis
      by (subst spectrogram_loop.simps) (simp add: fread_def)
  next
    case False
    then have le: "spb \<le> length (input st)" by simp
    let ?st' = "st\<lparr>input := drop spb (input st),
                   trace := (trace st @ [Fread spb spb])
                      @ map Put_f32 (spectrogram_row A w (take spb (input st))
                                       (int_of_size_t spb)),
                   num_blocks := num_blocks st + 1\<rparr>"
    have "length (input ?st') < length (input st)"
      using le less.prems by simp
    note IH = less.hyps [OF this less.prems]
    have m: "(length (input st) - spb) mod spb = length (input st) mod spb"
      using le by (simp add: le_mod_geq)
    have d: "length (input st) div spb = Suc ((length (input st) - spb) div spb)"
      using le less.prems by (simp add: le_div_geq)
    show ?thesis
      apply (subst spectrogram_loop.simps)
      using le less.prems IH
      by (simp add: fread_def min_absorb1 upt_Suc_shift m d
            block_at_0 block_at_Suc o_def del: upt_Suc)
  qed
qed

lemma integrated_loop_run:
  assumes "0 < size_t (2 * n)"
  shows "integrated_loop A n (st, ps) =
     Some (st\<lparr>input := [],
              trace := trace st
                @ replicate (length (input st) div size_t (2 * n))
                    (Fread (size_t (2 * n)) (size_t (2 * n)))
                @ [Fread (size_t (2 * n)) (length (input st) mod size_t (2 * n))],
              num_blocks := num_blocks st + length (input st) div size_t (2 * n)\<rparr>,
           foldl (\<lambda>acc k. process_block A n (block_at (size_t (2 * n)) (input st) k) acc) ps
             [0..<length (input st) div size_t (2 * n)])"
  using assms
proof (induction "length (input st)" arbitrary: st ps rule: less_induct)
  case less
  let ?c = "size_t (2 * n)"
  show ?case
  proof (cases "length (input st) < ?c")
    case True
    then show ?thesis
      by (subst integrated_loop.simps) (simp add: fread_def)
  next
    case False
    then have le: "?c \<le> length (input st)" by simp
    let ?st' = "st\<lparr>input := drop ?c (input st),
                   trace := trace st @ [Fread ?c ?c],
                   num_blocks := num_blocks st + 1\<rparr>"
    have "length (input ?st') < length (input st)"
      using le less.prems by simp
    note IH = less.hyps [OF this less.prems, of "process_block A n (take ?c (input st)) ps"]
    have m: "(length (input st) - ?c) mod ?c = length (input st) mod ?c"
      using le by (simp add: le_mod_geq)
    have d: "length (input st) div ?c = Suc ((length (input st) - ?c) div ?c)"
      using le less.prems by (simp add: le_div_geq)
    show ?thesis
      apply (subst integrated_loop.simps)
      using le less.prems IH
      by (simp add: fread_def min_absorb1 upt_Suc_shift m d foldl_map
            block_at_0 block_at_Suc o_def replicate_app_Cons_same del: upt_Suc)
  qed
qed

lemma div_drop: "0 < c \<Longrightarrow> c \<le> length s \<Longrightarrow> length s div c = Suc ((length s - c) div c)"
  by (simp add: le_div_geq)

lemma amplitude_sum_loop_complete:
  assumes "0 < item_floats spb" "0 \<le> cur" "nb < 2 ^ 31"
    and "nat (nb - cur) \<le> length (input st) div item_floats spb"
  shows "amplitude_sum_loop A spb nb cur st =
     finish 0 (st\<lparr>input := drop (nat (nb - cur) * item_floats spb) (input st),
                 trace := trace st
                   @ concat (map (\<lambda>k. [Fread (item_floats spb) (item_floats spb),
                                        Put_line_d (nat cur + k)
                                          (amplitude_mean A spb
                                             (block_at (item_floats spb) (input st) k))])
                                 [0..<nat (nb - cur)]),
                 num_blocks := num_blocks st + nat (nb - cur)\<rparr>)"
  using assms
proof (induction "nat (nb - cur)" arbitrary: cur st)
  case 0
  then show ?case by (subst amplitude_sum_loop.simps) simp
next
  case (Suc t)
  let ?c = "item_floats spb"
  from Suc.hyps(2) have lt: "cur < nb" and t: "t = nat (nb - (cur + 1))" by linarith+
  from Suc.prems(4) Suc.hyps(2) have K: "Suc t \<le> length (input st) div ?c" by simp
  then have "1 * ?c \<le> length (input st) div ?c * ?c"
    by (intro mult_le_mono1) simp
  also have "\<dots> \<le> length (input st)" by simp
  finally have le: "?c \<le> length (input st)" by simp
  have ne: "cur \<noteq> 2 ^ 31 - 1" using lt Suc.prems(3) by simp
  let ?st2 = "st\<lparr>input := drop ?c (input st),
                 trace := (trace st @ [Fread ?c ?c])
                    @ [Put_line_d (nat cur) (amplitude_mean A spb (take ?c (input st)))],
                 num_blocks := num_blocks st + 1\<rparr>"
  have K': "nat (nb - (cur + 1)) \<le> length (input ?st2) div ?c"
    using K le Suc.prems(1) t by (simp add: div_drop)
  have c1: "0 \<le> cur + 1" using Suc.prems(2) by simp
  note IH = Suc.hyps(1) [OF t Suc.prems(1) c1 Suc.prems(3) K']
  have n1: "nat (cur + 1) = Suc (nat cur)" using Suc.prems(2) by simp
  have n2: "nat (nb - cur) = Suc t" using Suc.hyps(2) by simp
  have n3: "nat (nb - (1 + cur)) = t" "nat (1 + cur) = Suc (nat cur)"
    using t Suc.prems(2) by simp_all
  show ?case
    apply (subst amplitude_sum_loop.simps)
    using lt le ne Suc.prems(1) IH
    by (simp add: fread_def min_absorb1 n1 n2 n3 t [symmetric] upt_Suc_shift o_def
          block_at_0 block_at_Suc ac_simps del: upt_Suc)
qed

lemma amplitude_sum_loop_short:
  assumes "0 < item_floats spb" "0 \<le> cur"
    and "cur + int (length (input st) div item_floats spb) < 2 ^ 31"
    and "int (length (input st) div item_floats spb) < nb - cur"
  shows "amplitude_sum_loop A spb nb cur st =
     finish 1 (st\<lparr>input := [],
                 trace := trace st
                   @ concat (map (\<lambda>k. [Fread (item_floats spb) (item_floats spb),
                                        Put_line_d (nat cur + k)
                                          (amplitude_mean A spb
                                             (block_at (item_floats spb) (input st) k))])
                                 [0..<length (input st) div item_floats spb])
                   @ [Fread (item_floats spb) (length (input st) mod item_floats spb)],
                 num_blocks := num_blocks st + length (input st) div item_floats spb\<rparr>)"
  using assms
proof (induction "length (input st) div item_floats spb" arbitrary: cur st)
  case 0
  let ?c = "item_floats spb"
  from 0 have lt: "length (input st) < ?c" by (simp add: div_eq_0_iff)
  from 0 have "cur < nb" by simp
  then show ?case
    using lt 0(1) [symmetric]
    by (subst amplitude_sum_loop.simps) (simp add: fread_def)
next
  case (Suc K)
  let ?c = "item_floats spb"
  have le: "?c \<le> length (input st)"
  proof (rule ccontr)
    assume "\<not> ?c \<le> length (input st)"
    then have "length (input st) div ?c = 0" by simp
    with Suc.hyps(2) show False by simp
  qed
  have lt: "cur < nb" using Suc.prems(4) by linarith
  have ne: "cur \<noteq> 2 ^ 31 - 1" using Suc.prems(3) Suc.hyps(2) [symmetric] by simp
  let ?st2 = "st\<lparr>input := drop ?c (input st),
                 trace := (trace st @ [Fread ?c ?c])
                    @ [Put_line_d (nat cur) (amplitude_mean A spb (take ?c (input st)))],
                 num_blocks := num_blocks st + 1\<rparr>"
  have K: "K = length (input ?st2) div ?c"
    using Suc.hyps(2) le Suc.prems(1) by (simp add: div_drop)
  have c1: "0 \<le> cur + 1" using Suc.prems(2) by simp
  have b1: "cur + 1 + int (length (input ?st2) div ?c) < 2 ^ 31"
    using Suc.prems(3) Suc.hyps(2) [symmetric] K by simp
  have b2: "int (length (input ?st2) div ?c) < nb - (cur + 1)"
    using Suc.prems(4) Suc.hyps(2) [symmetric] K by simp
  note IH = Suc.hyps(1) [OF K Suc.prems(1) c1 b1 b2]
  have n1: "nat (cur + 1) = Suc (nat cur)" "nat (1 + cur) = Suc (nat cur)"
    using Suc.prems(2) by simp_all
  have m: "(length (input st) - ?c) mod ?c = length (input st) mod ?c"
    using le by (simp add: le_mod_geq)
  show ?case
    apply (subst amplitude_sum_loop.simps)
    using lt le ne Suc.prems(1) IH K
    by (simp add: fread_def min_absorb1 n1 m Suc.hyps(2) [symmetric] upt_Suc_shift o_def
          block_at_0 block_at_Suc ac_simps del: upt_Suc)
qed

lemma power_spectrum_loop_complete:
  assumes "0 < item_floats spb" "0 \<le> cur" "nb < 2 ^ 31"
    and "nat (nb - cur) \<le> length (input st) div item_floats spb"
  shows "power_spectrum_loop A spb nb cur st =
     finish 0 (st\<lparr>input := drop (nat (nb - cur) * item_floats spb) (input st),
                 trace := trace st
                   @ concat (map (\<lambda>k. Fread (item_floats spb) (item_floats spb)
                                        # map Put_f32 (spectrum_block A spb
                                             (block_at (item_floats spb) (input st) k)))
                                 [0..<nat (nb - cur)]),
                 num_blocks := num_blocks st + nat (nb - cur)\<rparr>)"
  using assms
proof (induction "nat (nb - cur)" arbitrary: cur st)
  case 0
  then show ?case by (subst power_spectrum_loop.simps) simp
next
  case (Suc t)
  let ?c = "item_floats spb"
  from Suc.hyps(2) have lt: "cur < nb" and t: "t = nat (nb - (cur + 1))" by linarith+
  from Suc.prems(4) Suc.hyps(2) have K: "Suc t \<le> length (input st) div ?c" by simp
  then have "1 * ?c \<le> length (input st) div ?c * ?c"
    by (intro mult_le_mono1) simp
  also have "\<dots> \<le> length (input st)" by simp
  finally have le: "?c \<le> length (input st)" by simp
  have ne: "cur \<noteq> 2 ^ 31 - 1" using lt Suc.prems(3) by simp
  let ?st2 = "st\<lparr>input := drop ?c (input st),
                 trace := (trace st @ [Fread ?c ?c])
                    @ map Put_f32 (spectrum_block A spb (take ?c (input st))),
                 num_blocks := num_blocks st + 1\<rparr>"
  have K': "nat (nb - (cur + 1)) \<le> length (input ?st2) div ?c"
    using K le Suc.prems(1) t by (simp add: div_drop)
  have c1: "0 \<le> cur + 1" using Suc.prems(2) by simp
  note IH = Suc.hyps(1) [OF t Suc.prems(1) c1 Suc.prems(3) K']
  have n1: "nat (cur + 1) = Suc (nat cur)" using Suc.prems(2) by simp
  have n2: "nat (nb - cur) = Suc t" using Suc.hyps(2) by simp
  have n3: "nat (nb - (1 + cur)) = t" "nat (1 + cur) = Suc (nat cur)"
    using t Suc.prems(2) by simp_all
  show ?case
    apply (subst power_spectrum_loop.simps)
    using lt le ne Suc.prems(1) IH
    by (simp add: fread_def min_absorb1 n1 n2 n3 t [symmetric] upt_Suc_shift o_def
          block_at_0 block_at_Suc ac_simps del: upt_Suc)
qed

lemma power_spectrum_loop_short:
  assumes "0 < item_floats spb" "0 \<le> cur"
    and "cur + int (length (input st) div item_floats spb) < 2 ^ 31"
    and "int (length (input st) div item_floats spb) < nb - cur"
  shows "power_spectrum_loop A spb nb cur st =
     finish 1 (st\<lparr>input := [],
                 trace := trace st
                   @ concat (map (\<lambda>k. Fread (item_floats spb) (item_floats spb)
                                        # map Put_f32 (spectrum_block A spb
                                             (block_at (item_floats spb) (input st) k)))
                                 [0..<length (input st) div item_floats spb])
                   @ [Fread (item_floats spb) (length (input st) mod item_floats spb)],
                 num_blocks := num_blocks st + length (input st) div item_floats spb\<rparr>)"
  using assms
proof (induction "length (input st) div item_floats spb" arbitrary: cur st)
  case 0
  let ?c = "item_floats spb"
  from 0 have lt: "length (input st) < ?c" by (simp add: div_eq_0_iff)
  from 0 have "cur < nb" by simp
  then show ?case
    using lt 0(1) [symmetric]
    by (subst power_spectrum_loop.simps) (simp add: fread_def)
next
  case (Suc K)
  let ?c = "item_floats spb"
  have le: "?c \<le> length (input st)"
  proof (rule ccontr)
    assume "\<not> ?c \<le> length (input st)"
    then have "length (input st) div ?c = 0" by simp
    with Suc.hyps(2) show False by simp
  qed
  have lt: "cur < nb" using Suc.prems(4) by linarith
  have ne: "cur \<noteq> 2 ^ 31 - 1" using Suc.prems(3) Suc.hyps(2) [symmetric] by simp
  let ?st2 = "st\<lparr>input := drop ?c (input st),
                 trace := (trace st @ [Fread ?c ?c])
                    @ map Put_f32 (spectrum_block A spb (take ?c (input st))),
                 num_blocks := num_blocks st + 1\<rparr>"
  have K: "K = length (input ?st2) div ?c"
    using Suc.hyps(2) le Suc.prems(1) by (simp add: div_drop)
  have c1: "0 \<le> cur + 1" using Suc.prems(2) by simp
  have b1: "cur + 1 + int (length (input ?st2) div ?c) < 2 ^ 31"
    using Suc.prems(3) Suc.hyps(2) [symmetric] K by simp
  have b2: "int (length (input ?st2) div ?c) < nb - (cur + 1)"
    using Suc.prems(4) Suc.hyps(2) [symmetric] K by simp
  note IH = Suc.hyps(1) [OF K Suc.prems(1) c1 b1 b2]
  have n1: "nat (cur + 1) = Suc (nat cur)" "nat (1 + cur) = Suc (nat cur)"
    using Suc.prems(2) by simp_all
  have m: "(length (input st) - ?c) mod ?c = length (input st) mod ?c"
    using le by (simp add: le_mod_geq)
  show ?case
    apply (subst power_spectrum_loop.simps)
    using lt le ne Suc.prems(1) IH K
    by (simp add: fread_def min_absorb1 n1 m Suc.hyps(2) [symmetric] upt_Suc_shift o_def
          block_at_0 block_at_Suc ac_simps del: upt_Suc)
qed

subsection \<open>What a run of each program does\<close>

lemma size_t_small: "x < 2 ^ 64 \<Longrightarrow> size_t x = x"
  by (simp add: size_t_def)

lemma size_t_double: "spb < 2 ^ 63 \<Longrightarrow> size_t (2 * spb) = 2 * spb" "spb < 2 ^ 63 \<Longrightarrow> size_t (spb * 2) = 2 * spb"
  by (simp_all add: size_t_def)

lemma amplitude_main_run:
  assumes "in_file env = Some s" "name_fits env" "out_ok env" "alloc_ok env"
    and "2 \<le> spb" "spb < 2 ^ 63"
  shows "amplitude_main A env spb =
     Some \<lparr>status = Exit 0,
           events = [Fopen Infile, Fopen Outfile]
             @ concat (map (\<lambda>k. Fread (2 * spb) (2 * spb)
                                 # map Put_f32 (amplitude_block A spb (block_at (2 * spb) s k)))
                           [0..<length s div (2 * spb)])
             @ [Fread (2 * spb) (length s mod (2 * spb))],
           blocks = length s div (2 * spb)\<rparr>"
proof -
  have c: "size_t (spb * 2) = 2 * spb" using assms(6) by (rule size_t_double)
  have "0 < size_t (spb * 2)" using assms(5) c by simp
  from amplitude_loop_run [OF this, of A "start s [Fopen Infile, Fopen Outfile]"]
  show ?thesis
    using assms by (simp add: amplitude_main_def c start_def finish_def)
qed

lemma power_main_run:
  assumes "in_file env = Some s" "alloc_ok env"
    and "ot = OUTPUT_SUM \<or> out_ok env" "ot = OUTPUT_RAW \<or> sum_ok env"
    and "0 < spb" "spb < 2 ^ 63"
  shows "power_main A env ot spb =
     Some \<lparr>status = Exit 0,
           events = [Fopen Infile]
             @ (if ot = OUTPUT_RAW \<or> ot = OUTPUT_BOTH then [Fopen Outfile] else [])
             @ (if ot = OUTPUT_SUM \<or> ot = OUTPUT_BOTH then [Fopen Sumfile] else [])
             @ concat (map (\<lambda>k. Fread (2 * spb) (2 * spb)
                                 # power_block A ot spb k (block_at (2 * spb) s k))
                           [0..<length s div (2 * spb)])
             @ [Fread (2 * spb) (length s mod (2 * spb))],
           blocks = length s div (2 * spb)\<rparr>"
proof -
  have c: "size_t (2 * spb) = 2 * spb" using assms(6) by (rule size_t_double)
  have "0 < size_t (2 * spb)" using assms(5) c by simp
  note run = power_loop_run [OF this, of A, unfolded c]
  show ?thesis
    using assms by (cases ot) (simp_all add: power_main_def run start_def finish_def)
qed

lemma spectrogram_main_run:
  assumes "in_file env = Some s" "name_fits env" "out_ok env" "alloc_ok env" "plan_ok env"
    and "2 \<le> spb"
  shows "spectrogram_main A env spb =
     Some \<lparr>status = Exit 0,
           events = [Fopen Infile, Fopen Outfile, Put_header (spb mod 2 ^ 32)]
             @ concat (map (\<lambda>k. Fread spb spb
                                 # map Put_f32 (spectrogram_row A (hanning A (int_of_size_t spb))
                                     (block_at spb s k) (int_of_size_t spb)))
                           [0..<length s div spb])
             @ [Fread spb (length s mod spb)],
           blocks = length s div spb\<rparr>"
proof -
  have "0 < spb" using assms(6) by simp
  note run = spectrogram_loop_run [OF this, of A]
  show ?thesis
    using assms by (simp add: spectrogram_main_def run start_def finish_def)
qed

lemma integrated_main_run:
  assumes "in_file env = Some s" "alloc_ok env" "plan_ok env" "out_ok env"
    and "0 < spb" "spb < 2 ^ 63"
  shows "integrated_main A env spb =
     Some \<lparr>status = Exit 0,
           events = [Fopen Infile]
             @ replicate (length s div (2 * nat spb)) (Fread (2 * nat spb) (2 * nat spb))
             @ [Fread (2 * nat spb) (length s mod (2 * nat spb)), Fopen Outfile]
             @ map (\<lambda>i. Put_line_f i
                     (average A (nat spb) (length s div (2 * nat spb))
                        (foldl (\<lambda>acc k. process_block A (nat spb)
                                           (block_at (2 * nat spb) s k) acc)
                           (replicate (nat spb) (f_lit A 0))
                           [0..<length s div (2 * nat spb)]) ! i))
                 [0..<nat spb],
           blocks = length s div (2 * nat spb)\<rparr>"
proof -
  have "nat spb < 2 ^ 63" using assms(5,6) by (simp add: nat_less_iff)
  then have c: "size_t (2 * nat spb) = 2 * nat spb" by (rule size_t_double)
  have "0 < size_t (2 * nat spb)" using assms(5) c by simp
  note run = integrated_loop_run [OF this, of A, unfolded c]
  show ?thesis
    using assms by (simp add: integrated_main_def Let_def run start_def finish_def)
qed


lemma reads_append [simp]: "reads (a @ b) = reads a @ reads b"
  by (simp add: reads_def)

lemma reads_Cons [simp]: "reads (e # tr) = read_of e @ reads tr"
  by (simp add: reads_def)

lemma reads_Nil [simp]: "reads [] = []"
  by (simp add: reads_def)

lemma reads_concat: "reads (concat (map f ks)) = concat (map (\<lambda>k. reads (f k)) ks)"
  by (induction ks) simp_all

lemma reads_Put_f32 [simp]: "reads (map Put_f32 xs) = []"
  by (induction xs) simp_all

lemma concat_map_single: "concat (map (\<lambda>k. [x]) ks) = replicate (length ks) x"
  by (induction ks) simp_all

lemma foldl_power_step_snd:
  "reads (snd (foldl (power_step A ot buffer) acc is)) = reads (snd acc)"
  by (induction "is" arbitrary: acc) (simp_all add: power_step_def Let_def)

lemma reads_power_block [simp]: "reads (power_block A ot spb k buffer) = []"
proof -
  have "reads (snd (foldl (power_step A ot buffer) (f_lit A 0, []) [0..<spb])) = []"
    by (simp add: foldl_power_step_snd)
  then show ?thesis
    by (cases "foldl (power_step A ot buffer) (f_lit A 0, []) [0..<spb]")
       (simp add: power_block_def)
qed

lemma size_t_of_int_nat: "0 \<le> x \<Longrightarrow> x < 2 ^ 64 \<Longrightarrow> size_t_of_int x = nat x"
  by (simp add: size_t_of_int_def)

lemma item_floats_small:
  assumes "0 < spb" "spb < 2 ^ 31"
  shows "item_floats spb = 2 * nat spb"
proof -
  have a: "size_t_of_int spb = nat spb" using assms by (simp add: size_t_of_int_nat)
  have b: "nat spb < 2 ^ 31" using assms by (simp add: nat_less_iff)
  then have "4 * nat spb < 2 ^ 64" "4 * nat spb * 2 < 2 ^ 64" by simp_all
  then show ?thesis by (simp add: item_floats_def a size_t_def)
qed

lemma number_of_blocks_regular:
  assumes "0 < spb" "spb < 2 ^ 31" "length s < 2 ^ 61"
  shows "number_of_blocks (4 * int (length s)) spb = Some (int (length s div (2 * nat spb)))"
proof -
  have a: "size_t_of_int spb = nat spb" using assms by (simp add: size_t_of_int_nat)
  have "4 * int (length s) < 2 ^ 64" using assms(3) by simp
  then have b: "size_t_of_int (4 * int (length s)) = 4 * length s"
    by (simp add: size_t_of_int_nat nat_mult_distrib)
  have c: "length s div nat spb div 2 = length s div (2 * nat spb)"
    by (simp add: div_mult2_eq mult.commute)
  have "length s div (2 * nat spb) \<le> length s" by (rule div_le_dividend)
  also have "\<dots> < 2 ^ 61" by (rule assms(3))
  also have "(2::nat) ^ 61 < 2 ^ 63" by simp
  finally have d: "length s div (2 * nat spb) < 2 ^ 63" .
  then have e: "length s div (2 * nat spb) mod 2 ^ 64 = length s div (2 * nat spb)" by simp
  show ?thesis
    using assms(1) d by (simp add: number_of_blocks_def a b c long_of_size_t_def e)
qed

lemma amplitude_sum_main_complete:
  assumes "in_file env = Some s" "alloc_ok env" "out_ok env"
    and "number_of_blocks (ftell_result env) spb = Some nb"
    and "0 < item_floats spb"
    and "nb < 2 ^ 31" "nat nb \<le> length s div item_floats spb"
  shows "amplitude_sum_main A env spb =
     \<lparr>status = Exit 0,
      events = [Fopen Infile, Ftell, Fopen Outfile]
        @ concat (map (\<lambda>k. [Fread (item_floats spb) (item_floats spb),
                             Put_line_d k (amplitude_mean A spb
                                             (block_at (item_floats spb) s k))])
                      [0..<nat nb]),
      blocks = nat nb\<rparr>"
proof -
  from amplitude_sum_loop_complete [of spb 0 nb "start s [Fopen Infile, Ftell, Fopen Outfile]" A]
    assms(5,6,7)
  show ?thesis
    using assms(1,2,3,4) by (simp add: amplitude_sum_main_def start_def finish_def)
qed

lemma power_spectrum_main_complete:
  assumes "in_file env = Some s" "alloc_ok env" "out_ok env"
    and "number_of_blocks (ftell_result env) spb = Some nb"
    and "0 < item_floats spb"
    and "nb < 2 ^ 31" "nat nb \<le> length s div item_floats spb"
  shows "power_spectrum_main A env spb =
     \<lparr>status = Exit 0,
      events = [Fopen Infile, Ftell, Fopen Outfile]
        @ concat (map (\<lambda>k. Fread (item_floats spb) (item_floats spb)
                             # map Put_f32 (spectrum_block A spb
                                             (block_at (item_floats spb) s k)))
                      [0..<nat nb]),
      blocks = nat nb\<rparr>"
proof -
  from power_spectrum_loop_complete [of spb 0 nb "start s [Fopen Infile, Ftell, Fopen Outfile]" A]
    assms(5,6,7)
  show ?thesis
    using assms(1,2,3,4) by (simp add: power_spectrum_main_def start_def finish_def)
qed

lemma amplitude_sum_main_short:
  assumes "in_file env = Some s" "alloc_ok env" "out_ok env"
    and "number_of_blocks (ftell_result env) spb = Some nb"
    and "0 < item_floats spb"
    and "int (length s div item_floats spb) < nb" "length s div item_floats spb < 2 ^ 31"
  shows "amplitude_sum_main A env spb =
     \<lparr>status = Exit 1,
      events = [Fopen Infile, Ftell, Fopen Outfile]
        @ concat (map (\<lambda>k. [Fread (item_floats spb) (item_floats spb),
                             Put_line_d k (amplitude_mean A spb
                                             (block_at (item_floats spb) s k))])
                      [0..<length s div item_floats spb])
        @ [Fread (item_floats spb) (length s mod item_floats spb)],
      blocks = length s div item_floats spb\<rparr>"
proof -
  have "int (length s div item_floats spb) < 2 ^ 31"
    using assms(7) by (simp flip: of_nat_less_iff)
  from amplitude_sum_loop_short [of spb 0 "start s [Fopen Infile, Ftell, Fopen Outfile]" nb A]
    this assms(5,6)
  show ?thesis
    using assms(1,2,3,4) by (simp add: amplitude_sum_main_def start_def finish_def)
qed

lemma power_spectrum_main_short:
  assumes "in_file env = Some s" "alloc_ok env" "out_ok env"
    and "number_of_blocks (ftell_result env) spb = Some nb"
    and "0 < item_floats spb"
    and "int (length s div item_floats spb) < nb" "length s div item_floats spb < 2 ^ 31"
  shows "power_spectrum_main A env spb =
     \<lparr>status = Exit 1,
      events = [Fopen Infile, Ftell, Fopen Outfile]
        @ concat (map (\<lambda>k. Fread (item_floats spb) (item_floats spb)
                             # map Put_f32 (spectrum_block A spb
                                             (block_at (item_floats spb) s k)))
                      [0..<length s div item_floats spb])
        @ [Fread (item_floats spb) (length s mod item_floats spb)],
      blocks = length s div item_floats spb\<rparr>"
proof -
  have "int (length s div item_floats spb) < 2 ^ 31"
    using assms(7) by (simp flip: of_nat_less_iff)
  from power_spectrum_loop_short [of spb 0 "start s [Fopen Infile, Ftell, Fopen Outfile]" nb A]
    this assms(5,6)
  show ?thesis
    using assms(1,2,3,4) by (simp add: power_spectrum_main_def start_def finish_def)
qed

subsection \<open>Exit status, block count and reads of a run\<close>

lemma amplitude_summary:
  assumes "in_file env = Some s" "name_fits env" "out_ok env" "alloc_ok env"
    and "2 \<le> spb" "spb < 2 ^ 63"
  shows "map_option summary (amplitude_main A env spb) =
     Some (Exit 0, length s div (2 * spb),
           replicate (length s div (2 * spb)) (2 * spb, 2 * spb)
             @ [(2 * spb, length s mod (2 * spb))])"
  by (simp add: amplitude_main_run [OF assms] summary_def reads_concat concat_map_single map_replicate_const)

lemma power_summary:
  assumes "in_file env = Some s" "alloc_ok env"
    and "ot = OUTPUT_SUM \<or> out_ok env" "ot = OUTPUT_RAW \<or> sum_ok env"
    and "0 < spb" "spb < 2 ^ 63"
  shows "map_option summary (power_main A env ot spb) =
     Some (Exit 0, length s div (2 * spb),
           replicate (length s div (2 * spb)) (2 * spb, 2 * spb)
             @ [(2 * spb, length s mod (2 * spb))])"
  by (simp add: power_main_run [OF assms] summary_def reads_concat concat_map_single map_replicate_const)

lemma reads_replicate_Fread: "reads (replicate K (Fread c g)) = replicate K (c, g)"
  by (induction K) simp_all

lemma reads_Put_line_f [simp]: "reads (map (\<lambda>i. Put_line_f i (f i)) ks) = []"
  by (induction ks) simp_all

lemma integrated_summary:
  assumes "in_file env = Some s" "alloc_ok env" "plan_ok env" "out_ok env"
    and "0 < spb" "spb < 2 ^ 63"
  shows "map_option summary (integrated_main A env spb) =
     Some (Exit 0, length s div (2 * nat spb),
           replicate (length s div (2 * nat spb)) (2 * nat spb, 2 * nat spb)
             @ [(2 * nat spb, length s mod (2 * nat spb))])"
  by (simp add: integrated_main_run [OF assms] summary_def reads_replicate_Fread)

lemma spectrogram_summary:
  assumes "in_file env = Some s" "name_fits env" "out_ok env" "alloc_ok env" "plan_ok env"
    and "2 \<le> spb"
  shows "map_option summary (spectrogram_main A env spb) =
     Some (Exit 0, length s div spb,
           replicate (length s div spb) (spb, spb) @ [(spb, length s mod spb)])"
  by (simp add: spectrogram_main_run [OF assms] summary_def reads_concat concat_map_single map_replicate_const)

lemma amplitude_sum_summary_complete:
  assumes "in_file env = Some s" "alloc_ok env" "out_ok env"
    and "number_of_blocks (ftell_result env) spb = Some nb"
    and "0 < item_floats spb"
    and "nb < 2 ^ 31" "nat nb \<le> length s div item_floats spb"
  shows "summary (amplitude_sum_main A env spb) =
     (Exit 0, nat nb, replicate (nat nb) (item_floats spb, item_floats spb))"
  by (simp add: amplitude_sum_main_complete [OF assms] summary_def reads_concat
        concat_map_single map_replicate_const)

lemma amplitude_sum_summary_short:
  assumes "in_file env = Some s" "alloc_ok env" "out_ok env"
    and "number_of_blocks (ftell_result env) spb = Some nb"
    and "0 < item_floats spb"
    and "int (length s div item_floats spb) < nb" "length s div item_floats spb < 2 ^ 31"
  shows "summary (amplitude_sum_main A env spb) =
     (Exit 1, length s div item_floats spb,
      replicate (length s div item_floats spb) (item_floats spb, item_floats spb)
        @ [(item_floats spb, length s mod item_floats spb)])"
  by (simp add: amplitude_sum_main_short [OF assms] summary_def reads_concat
        concat_map_single map_replicate_const)

lemma power_spectrum_summary_complete:
  assumes "in_file env = Some s" "alloc_ok env" "out_ok env"
    and "number_of_blocks (ftell_result env) spb = Some nb"
    and "0 < item_floats spb"
    and "nb < 2 ^ 31" "nat nb \<le> length s div item_floats spb"
  shows "summary (power_spectrum_main A env spb) =
     (Exit 0, nat nb, replicate (nat nb) (item_floats spb, item_floats spb))"
  by (simp add: power_spectrum_main_complete [OF assms] summary_def reads_concat
        concat_map_single map_replicate_const)

lemma power_spectrum_summary_short:
  assumes "in_file env = Some s" "alloc_ok env" "out_ok env"
    and "number_of_blocks (ftell_result env) spb = Some nb"
    and "0 < item_floats spb"
    and "int (length s div item_floats spb) < nb" "length s div item_floats spb < 2 ^ 31"
  shows "summary (power_spectrum_main A env spb) =
     (Exit 1, length s div item_floats spb,
      replicate (length s div item_floats spb) (item_floats spb, item_floats spb)
        @ [(item_floats spb, length s mod item_floats spb)])"
  by (simp add: power_spectrum_main_short [OF assms] summary_def reads_concat
        concat_map_single map_replicate_const)

lemma div_mod_decomp:
  assumes "length s = k * c + r" "r < c"
  shows "length s div c = k" "length s mod c = r"
  using assms by simp_all

lemma replicate_2: "replicate 2 x = [x, x]"
  by (simp add: numeral_2_eq_2)

lemma replicate_3: "replicate 3 x = [x, x, x]"
  by (simp add: numeral_3_eq_3)

lemma number_of_blocks_16: "number_of_blocks 16 2 = Some 1"
  by (simp add: number_of_blocks_def size_t_of_int_def long_of_size_t_def)

lemma number_of_blocks_fifo: "number_of_blocks (- 1) 2 = Some 1152921504606846975"
  by (simp add: number_of_blocks_def size_t_of_int_def long_of_size_t_def)

lemma item_floats_2: "item_floats 2 = 4"
  by (simp add: item_floats_def size_t_of_int_def size_t_def)


subsection \<open>The reference arithmetic on small integers\<close>

lemma round_even_of_int [simp]: "round_even (of_int z) = z"
  by (simp add: round_even_def)

lemma round_to_0 [simp]: "round_to p 0 = 0"
  by (simp add: round_to_def)

lemma round_to_eval:
  assumes "2 powr of_int k \<le> \<bar>x\<bar>" "\<bar>x\<bar> < 2 powr (of_int k + 1)"
  shows "round_to p x = of_int (round_even (x / 2 powr of_int (k - (int p - 1))))
                          * 2 powr of_int (k - (int p - 1))"
proof -
  have "0 < \<bar>x\<bar>" using assms(1) by (smt (verit) powr_gt_zero)
  then have fl: "\<lfloor>log 2 \<bar>x\<bar>\<rfloor> = k"
    using assms by (simp add: floor_log_eq_powr_iff)
  have "x \<noteq> 0" using \<open>0 < \<bar>x\<bar>\<close> by simp
  then show ?thesis by (simp add: round_to_def fl Let_def)
qed

lemma round_to_int:
  assumes "\<bar>m\<bar> < 2 ^ p" "0 < p"
  shows "round_to p (of_int m) = of_int m"
proof (cases "m = 0")
  case True then show ?thesis by simp
next
  case False
  define k where "k = \<lfloor>log 2 \<bar>real_of_int m\<bar>\<rfloor>"
  have pos: "0 < \<bar>real_of_int m\<bar>" using False by simp
  have k: "2 powr of_int k \<le> \<bar>real_of_int m\<bar>" "\<bar>real_of_int m\<bar> < 2 powr (of_int k + 1)"
    using floor_log_eq_powr_iff [of "\<bar>real_of_int m\<bar>" 2 k] pos k_def by simp_all
  have "1 \<le> \<bar>real_of_int m\<bar>" using False by (simp add: of_int_abs [symmetric] del: of_int_abs)
  then have "0 \<le> log 2 \<bar>real_of_int m\<bar>" by simp
  then have k0: "0 \<le> k" by (simp add: k_def)
  have "\<bar>real_of_int m\<bar> < 2 ^ p" using assms(1)
    by (metis of_int_abs of_int_less_iff of_int_numeral of_int_power)
  then have "2 powr of_int k < 2 powr real p"
    using k(1) by (simp add: powr_realpow)
  then have "of_int k < real p" by simp
  then have kp: "k \<le> int p - 1" by linarith
  define j where "j = nat (int p - 1 - k)"
  have e: "of_int (k - (int p - 1)) = - real j" using kp by (simp add: j_def)
  have pw: "2 powr real_of_int (k - (int p - 1)) = 1 / 2 ^ j"
    unfolding e by (simp add: powr_minus powr_realpow field_simps)
  have q: "real_of_int m / (1 / 2 ^ j) = of_int (m * 2 ^ j)"
    by simp
  have "round_to p (of_int m) = of_int (round_even (of_int (m * 2 ^ j))) * (1 / 2 ^ j)"
    using round_to_eval [OF k, of p] unfolding pw q .
  also have "\<dots> = of_int m"
    unfolding round_even_of_int by simp
  finally show ?thesis .
qed

lemma round_to_numeral:
  "numeral w < (2::int) ^ p \<Longrightarrow> 0 < p \<Longrightarrow> round_to p (numeral w) = numeral w"
  using round_to_int [of "numeral w" p] by simp

lemma round_to_1 [simp]: "0 < p \<Longrightarrow> round_to p 1 = 1"
  using round_to_int [of 1 p] by simp

lemma ieee_simps:
  "f_lit ieee q = round_to 24 (of_rat q)"
  "f_add ieee x y = round_to 24 (x + y)"
  "f_mul ieee x y = round_to 24 (x * y)"
  "f_div ieee x y = round_to 24 (x / y)"
  "f_of_size ieee n = round_to 24 (real n)"
  "d_of_f ieee x = x"
  "d_add ieee x y = round_to 53 (x + y)"
  "d_lit ieee q = round_to 53 (of_rat q)"
  by (simp_all add: ieee_def)

lemma upt_0_2: "[0..<2] = [0, 1]"
  by (simp add: numeral_2_eq_2)


subsection \<open>What a run writes\<close>

lemma f32_values_simps [simp]:
  "f32_values [] = []"
  "f32_values (e # tr) = f32_of e @ f32_values tr"
  "f32_values (a @ b) = f32_values a @ f32_values b"
  by (simp_all add: f32_values_def)

lemma f32_values_concat: "f32_values (concat (map f ks)) = concat (map (\<lambda>k. f32_values (f k)) ks)"
  by (induction ks) simp_all

lemma f32_values_Put_f32 [simp]: "f32_values (map Put_f32 xs) = xs"
  by (induction xs) simp_all

lemma text_lines_simps [simp]:
  "text_lines [] = []"
  "text_lines (e # tr) = line_of e @ text_lines tr"
  "text_lines (a @ b) = text_lines a @ text_lines b"
  by (simp_all add: text_lines_def)


lemma text_lines_Put_f32 [simp]: "text_lines (map Put_f32 xs) = []"
  by (induction xs) simp_all

lemma f32_values_Put_f32_comp [simp]: "f32_values (map (Put_f32 \<circ> f) xs) = map f xs"
  by (induction xs) simp_all

lemma text_lines_Put_f32_comp [simp]: "text_lines (map (Put_f32 \<circ> f) xs) = []"
  by (induction xs) simp_all






lemma written_simps [simp]:
  "written [] = []"
  "written (e # tr) = written_of e @ written tr"
  "written (a @ b) = written a @ written b"
  by (simp_all add: written_def)

lemma written_concat: "written (concat (map f ks)) = concat (map (\<lambda>k. written (f k)) ks)"
  by (induction ks) simp_all

lemma written_Put_f32 [simp]: "written (map Put_f32 xs) = map Put_f32 xs"
  by (induction xs) simp_all

lemma int_of_size_t_small: "N < 2 ^ 31 \<Longrightarrow> int_of_size_t N = int N"
  by (simp add: int_of_size_t_def)

lemma sdiv_2_nat: "int N sdiv 2 = int (N div 2)"
  by (simp add: signed_divide_int_def sgn_if zdiv_int)

lemma length_spectrogram_row: "length (spectrogram_row A w block (int N)) = N div 2 + 1"
  by (simp add: spectrogram_row_def sdiv_2_nat Let_def nat_add_distrib)

lemma spectrogram_row_nth:
  assumes "i \<le> N div 2"
  shows "spectrogram_row A w block (int N) ! i =
     f_mul A (f_lit A 10)
       (f_log10 A
          (f_add A
             (let z = fftwf_dft A
                        (map (\<lambda>j. (f_mul A (block ! j) (w ! j), f_lit A 0)) [0..<N]) ! i
              in f_add A (f_mul A (fst z) (fst z)) (f_mul A (snd z) (snd z)))
             (f_lit A (1 / 10 ^ 10))))"
proof -
  have "i < nat (int N sdiv 2 + 1)" using assms by (simp add: sdiv_2_nat nat_add_distrib)
  then show ?thesis
    by (simp add: spectrogram_row_def Let_def del: upt_Suc)
qed


subsection \<open>The accumulator of the integrated power spectrum\<close>

lemma length_foldl_update [simp]:
  "length (foldl (\<lambda>ps i. ps[i := f (ps ! i) i]) ps is) = length ps"
  by (induction "is" arbitrary: ps) simp_all

lemma foldl_update_nth:
  "n \<le> length ps \<Longrightarrow>
   foldl (\<lambda>ps i. ps[i := f (ps ! i) i]) ps [0..<n] ! i
     = (if i < n then f (ps ! i) i else ps ! i)"
proof (induction n arbitrary: i)
  case 0
  then show ?case by simp
next
  case (Suc n)
  then have n: "n < length ps" by simp
  have IH: "foldl (\<lambda>ps i. ps[i := f (ps ! i) i]) ps [0..<n] ! j
           = (if j < n then f (ps ! j) j else ps ! j)" for j
    using Suc by simp
  show ?case
    using n by (simp add: IH nth_list_update less_Suc_eq)
qed

lemma length_process_block [simp]: "length (process_block A n iq ps) = length ps"
  using length_foldl_update [of "\<lambda>x i. f_add A x (f_mul A (fftwf_c2r A (iq_complex n iq) ! i)
                                      (fftwf_c2r A (iq_complex n iq) ! i))" ps "[0..<n]"]
  by (simp add: process_block_def accumulate_def [abs_def])

lemma process_block_nth:
  assumes "n \<le> length ps"
  shows "process_block A n iq ps ! i =
     (if i < n
      then f_add A (ps ! i) (f_mul A (fftwf_c2r A (iq_complex n iq) ! i)
                                      (fftwf_c2r A (iq_complex n iq) ! i))
      else ps ! i)"
  using foldl_update_nth [OF assms,
      of "\<lambda>x i. f_add A x (f_mul A (fftwf_c2r A (iq_complex n iq) ! i)
                                      (fftwf_c2r A (iq_complex n iq) ! i))" i]
  by (simp add: process_block_def accumulate_def [abs_def])

lemma length_foldl_process_block [simp]:
  "length (foldl (\<lambda>acc k. process_block A n (blk k) acc) ps ks) = length ps"
  by (induction ks arbitrary: ps) simp_all

lemma foldl_process_block_nth:
  assumes "i < n" "n \<le> length ps"
  shows "foldl (\<lambda>acc k. process_block A n (blk k) acc) ps ks ! i =
     foldl (f_add A) (ps ! i)
       (map (\<lambda>k. f_mul A (fftwf_c2r A (iq_complex n (blk k)) ! i)
                          (fftwf_c2r A (iq_complex n (blk k)) ! i)) ks)"
  using assms
proof (induction ks arbitrary: ps)
  case Nil
  then show ?case by simp
next
  case (Cons k ks)
  have "n \<le> length (process_block A n (blk k) ps)" using Cons.prems by simp
  from Cons.IH [OF Cons.prems(1) this] show ?case
    using Cons.prems by (simp add: process_block_nth)
qed

lemma average_nth:
  assumes "n \<le> length ps" "i < n"
  shows "average A n B ps ! i = (if 0 < B then f_div A (ps ! i) (f_of_size A B) else ps ! i)"
  using foldl_update_nth [OF assms(1), of "\<lambda>x i. f_div A x (f_of_size A B)" i] assms(2)
  by (simp add: average_def)

lemma text_lines_Put_line_f [simp]:
  "text_lines (map (\<lambda>i. Put_line_f i (f i)) ks) = map (\<lambda>i. (i, f i)) ks"
  by (induction ks) simp_all

lemma text_lines_replicate_Fread [simp]: "text_lines (replicate K (Fread c g)) = []"
  by (induction K) simp_all

lemma dft_c2r_2: "dft_c2r [a, b] = [Re a + Re b, Re a - Re b]"
  by (simp add: dft_c2r_def upt_0_2 numeral_2_eq_2 lessThan_Suc)

lemma c2r_ieee_2:
  "fftwf_c2r ieee [(a, b), (c, d)] = [round_to 24 (a + c), round_to 24 (a - c)]"
  by (simp add: ieee_def of_pair_def dft_c2r_2)

lemma upt_0_4: "[0..<4] = [0, 1, 2, 3]"
  by (simp add: eval_nat_numeral upt_rec)

lemma sum_lessThan_4:
  "(\<Sum>j<4. f j) = f 0 + f 1 + f 2 + f (3::nat)" for f :: "nat \<Rightarrow> 'a::comm_monoid_add"
  by (simp add: eval_nat_numeral lessThan_Suc ac_simps)

lemma cis_quarter: "cis (2 * pi * real j * real k / 4) = \<i> ^ (j * k)"
proof -
  have "cis (2 * pi * real j * real k / 4) = cis (real (j * k) * (pi / 2))"
    by (simp add: field_simps)
  also have "\<dots> = cis (pi / 2) ^ (j * k)" by (simp only: DeMoivre)
  finally show ?thesis by simp
qed

lemma i_powers: "\<i> ^ 3 = - \<i>" "\<i> ^ 4 = 1" "\<i> ^ 6 = - 1" "\<i> ^ 9 = \<i>"
  by (simp_all add: eval_nat_numeral)

lemma cis_length_4:
  "cis (2 * pi * real j * real k / real (length [a, b, c, d])) = \<i> ^ (j * k)"
  using cis_quarter [of j k] by simp

lemma dft_c2r_4:
  "dft_c2r [a, b, c, d] =
     [Re a + 2 * Re b + Re c, Re a - 2 * Im b - Re c,
      Re a - 2 * Re b + Re c, Re a + 2 * Im b - Re c]"
  unfolding dft_c2r_def cis_length_4
  by (simp add: upt_0_4 sum_lessThan_4 i_powers)

lemma c2r_ieee_4:
  "fftwf_c2r ieee [(a, a'), (b, b'), (c, c'), (d, d')] =
     [round_to 24 (a + 2 * b + c), round_to 24 (a - 2 * b' - c),
      round_to 24 (a - 2 * b + c), round_to 24 (a + 2 * b' - c)]"
  by (simp add: ieee_def of_pair_def dft_c2r_4)

lemma dft_forward_4_0: "dft_forward [a, b, c, d] ! 0 = a + b + c + d"
  unfolding dft_forward_def by (simp add: upt_0_4 sum_lessThan_4)

lemma dft_ieee_4_0:
  "fst (fftwf_dft ieee [(a, a'), (b, b'), (c, c'), (d, d')] ! 0) = round_to 24 (a + b + c + d)"
proof -
  have "fftwf_dft ieee [(a, a'), (b, b'), (c, c'), (d, d')] ! 0 =
      (\<lambda>z. (round_to 24 (Re z), round_to 24 (Im z)))
        (dft_forward (map of_pair [(a, a'), (b, b'), (c, c'), (d, d')]) ! 0)"
    by (simp add: ieee_def dft_forward_def)
  then show ?thesis by (simp add: dft_forward_4_0 of_pair_def)
qed

lemma round_to_neg_numeral:
  "numeral w < (2::int) ^ p \<Longrightarrow> 0 < p \<Longrightarrow> round_to p (- numeral w) = - numeral w"
  using round_to_int [of "- numeral w" p] by simp

lemma nth_zeros_4:
  assumes "i < 4"
  shows "[0, 0, 0, 0 :: real] ! i = 0"
proof -
  have "i = 0 \<or> i = 1 \<or> i = 2 \<or> i = 3" using assms by arith
  then show ?thesis by auto
qed

lemma round_to_24_tie: "round_to 24 16777217 = 16777216"
  using round_to_eval [of 24 16777217 24] by (simp add: round_even_def)

lemma round_to_24_top: "round_to 24 16777216 = 16777216"
  using round_to_eval [of 24 16777216 24] by (simp add: round_even_def)


subsection \<open>The window in the reference arithmetic\<close>

lemma round_even_near: "\<bar>of_int (round_even y) - y\<bar> \<le> 1 / 2"
  by (simp add: round_even_def Let_def)

lemma round_to_error:
  assumes "0 < p"
  shows "\<bar>round_to p x - x\<bar> \<le> \<bar>x\<bar> / 2 ^ p"
proof (cases "x = 0")
  case True
  then show ?thesis by simp
next
  case False
  define k where "k = \<lfloor>log 2 \<bar>x\<bar>\<rfloor>"
  define u :: real where "u = 2 powr of_int (k - (int p - 1))"
  have pos: "0 < \<bar>x\<bar>" using False by simp
  have k: "2 powr of_int k \<le> \<bar>x\<bar>"
    using floor_log_eq_powr_iff [of "\<bar>x\<bar>" 2 k] pos k_def by simp
  have u0: "0 < u" by (simp add: u_def)
  have r: "round_to p x = of_int (round_even (x / u)) * u"
    using False by (simp add: round_to_def k_def u_def Let_def)
  have "round_to p x - x = (of_int (round_even (x / u)) - x / u) * u"
    using u0 by (simp add: r left_diff_distrib)
  then have "\<bar>round_to p x - x\<bar> = \<bar>of_int (round_even (x / u)) - x / u\<bar> * u"
    using u0 by (simp add: abs_mult)
  also have "\<dots> \<le> 1 / 2 * u"
    using round_even_near [of "x / u"] u0 by (intro mult_right_mono) simp_all
  finally have b: "\<bar>round_to p x - x\<bar> \<le> 1 / 2 * u" .
  have "real_of_int (k - (int p - 1)) = of_int k + 1 - real p" by simp
  then have "u = 2 powr (of_int k + 1 - real p)" unfolding u_def by (rule arg_cong)
  also have "\<dots> = 2 powr of_int k * 2 powr 1 / 2 powr real p"
    by (simp add: powr_diff powr_add)
  finally have ueq: "u = 2 powr of_int k * 2 / 2 ^ p" by (simp add: powr_realpow)
  have "1 / 2 * u = 2 powr of_int k / 2 ^ p" by (simp add: ueq)
  also have "\<dots> \<le> \<bar>x\<bar> / 2 ^ p"
    using k by (simp add: divide_right_mono)
  finally show ?thesis using b by linarith
qed

lemma round_to_between:
  assumes "0 < p" "0 < lo" "lo \<le> x" "x \<le> hi"
  shows "lo * (1 - 1 / 2 ^ p) \<le> round_to p x" "round_to p x \<le> hi * (1 + 1 / 2 ^ p)"
proof -
  have x: "0 < x" using assms by linarith
  have e: "\<bar>round_to p x - x\<bar> \<le> x / 2 ^ p"
    using round_to_error [OF assms(1), of x] x by simp
  have q: "0 \<le> 1 - 1 / (2::real) ^ p" by simp
  have "lo * (1 - 1 / 2 ^ p) \<le> x * (1 - 1 / 2 ^ p)"
    using assms(3) q by (rule mult_right_mono)
  also have "\<dots> = x - x / 2 ^ p" by (simp add: algebra_simps)
  also have "\<dots> \<le> round_to p x" using e by linarith
  finally show "lo * (1 - 1 / 2 ^ p) \<le> round_to p x" .
  have "round_to p x \<le> x + x / 2 ^ p" using e by linarith
  also have "\<dots> = x * (1 + 1 / 2 ^ p)" by (simp add: algebra_simps)
  also have "\<dots> \<le> hi * (1 + 1 / 2 ^ p)"
    using assms(4) by (intro mult_right_mono) simp_all
  finally show "round_to p x \<le> hi * (1 + 1 / 2 ^ p)" .
qed

lemma cos_lower: "1 - z\<^sup>2 / 2 \<le> cos (z::real)"
proof -
  have "(sin (z / 2))\<^sup>2 \<le> (z / 2)\<^sup>2"
    using abs_sin_x_le_abs_x [of "z / 2"] by (simp add: abs_le_square_iff [symmetric])
  then show ?thesis
    using cos_double_sin [of "z / 2"] by (simp add: power_divide)
qed

lemma round_to_24_near_one:
  assumes "1 - 1 / 2 ^ 25 < c" "c \<le> 1"
  shows "round_to 24 c = 1"
proof (cases "c = 1")
  case True
  then show ?thesis by simp
next
  case False
  then have c1: "c < 1" using assms(2) by simp
  have lo: "2 powr of_int (- 1) \<le> \<bar>c\<bar>" using assms(1) by (simp add: powr_minus)
  have hi: "\<bar>c\<bar> < 2 powr (of_int (- 1) + 1)" using assms(1) c1 by simp
  have pw: "2 powr real_of_int (- 1 - (int 24 - 1)) = 1 / 16777216"
    by (simp add: powr_minus powr_numeral)
  have fl: "\<lfloor>c * 16777216\<rfloor> = 16777215"
    by (rule floor_unique) (use assms(1) c1 in simp_all)
  have "round_even (c * 16777216) = 16777216"
    unfolding round_even_def Let_def fl using assms(1) by simp
  then show ?thesis
    using round_to_eval [OF lo hi, of 24] unfolding pw by simp
qed

lemma cos_approx:
  "\<bar>cos x - (\<Sum>m<n. cos_coeff m * x ^ m)\<bar> \<le> \<bar>x\<bar> ^ n / fact n" for x :: real
proof -
  obtain t where t: "cos x = (\<Sum>m<n. cos_coeff m * x ^ m)
      + (cos (t + 1 / 2 * real n * pi) / fact n) * x ^ n"
    using Maclaurin_cos_expansion [of x n] by blast
  have "\<bar>cos (t + 1 / 2 * real n * pi) / fact n * x ^ n\<bar>
      = \<bar>cos (t + 1 / 2 * real n * pi)\<bar> * (\<bar>x\<bar> ^ n / fact n)"
    by (simp add: abs_mult power_abs)
  also have "\<dots> \<le> 1 * (\<bar>x\<bar> ^ n / fact n)"
    by (intro mult_right_mono) simp_all
  finally show ?thesis using t by simp
qed

lemma sum_lessThan_16:
  "(\<Sum>m<16. f m) = f 0 + f 1 + f 2 + f 3 + f 4 + f 5 + f 6 + f 7 + f 8 + f 9 + f 10 + f 11
      + f 12 + f 13 + f 14 + f 15"
  for f :: "nat \<Rightarrow> real"
  by (simp add: eval_nat_numeral)

lemma cos_taylor_16:
  fixes x :: real
  defines "P \<equiv> 1 - x ^ 2 / 2 + x ^ 4 / 24 - x ^ 6 / 720 + x ^ 8 / 40320 - x ^ 10 / 3628800
      + x ^ 12 / 479001600 - x ^ 14 / 87178291200"
  shows "\<bar>cos x - P\<bar> \<le> x ^ 16 / 20922789888000"
proof -
  have s: "(\<Sum>m<16. cos_coeff m * x ^ m) = P"
    unfolding sum_lessThan_16 P_def by (simp add: cos_coeff_def fact_numeral)
  have f: "fact 16 = (20922789888000 :: real)" by (simp add: eval_nat_numeral)
  have a: "\<bar>x\<bar> ^ 16 = x ^ 16" by (simp add: power_even_abs)
  show ?thesis using cos_approx [of x 16] unfolding s f a .
qed

lemma cos_below_half_pi: "0 < cos (15707963 / 10000000 :: real)"
proof -
  define x :: real where "x = 15707963 / 10000000"
  define P where "P = 1 - x ^ 2 / 2 + x ^ 4 / 24 - x ^ 6 / 720 + x ^ 8 / 40320 - x ^ 10 / 3628800
      + x ^ 12 / 479001600 - x ^ 14 / 87178291200"
  define E where "E = x ^ 16 / 20922789888000"
  have e: "\<bar>cos x - P\<bar> \<le> E" unfolding P_def E_def by (rule cos_taylor_16)
  have v: "E < P" unfolding P_def E_def x_def by (simp add: power_divide)
  have "0 < cos x" using e v by linarith
  then show ?thesis by (simp add: x_def)
qed

lemma cos_above_half_pi: "cos (15707964 / 10000000 :: real) < 0"
proof -
  define x :: real where "x = 15707964 / 10000000"
  define P where "P = 1 - x ^ 2 / 2 + x ^ 4 / 24 - x ^ 6 / 720 + x ^ 8 / 40320 - x ^ 10 / 3628800
      + x ^ 12 / 479001600 - x ^ 14 / 87178291200"
  define E where "E = x ^ 16 / 20922789888000"
  have e: "\<bar>cos x - P\<bar> \<le> E" unfolding P_def E_def by (rule cos_taylor_16)
  have v: "P < - E" unfolding P_def E_def x_def by (simp add: power_divide)
  have "cos x < 0" using e v by linarith
  then show ?thesis by (simp add: x_def)
qed

lemma pi_bounds: "31415926 / 10000000 < pi" "pi < 31415928 / 10000000"
proof -
  have "15707963 / 10000000 < pi / 2"
  proof (rule ccontr)
    assume "\<not> 15707963 / 10000000 < pi / 2"
    then have "pi / 2 \<le> 15707963 / 10000000" by simp
    moreover have "(15707963 / 10000000 :: real) \<le> pi" using pi_ge_two by simp
    ultimately have "cos (15707963 / 10000000) \<le> cos (pi / 2)"
      by (intro cos_monotone_0_pi_le) simp_all
    then show False using cos_below_half_pi by simp
  qed
  then show "31415926 / 10000000 < pi" by simp
  have "pi / 2 < 15707964 / 10000000"
  proof (rule ccontr)
    assume "\<not> pi / 2 < 15707964 / 10000000"
    then have "15707964 / 10000000 \<le> pi / 2" by simp
    then have "0 \<le> cos (15707964 / 10000000 :: real)"
      by (intro cos_ge_zero) simp_all
    then show False using cos_above_half_pi by simp
  qed
  then show "pi < 31415928 / 10000000" by simp
qed

lemma hanning_nth:
  assumes "i < N"
  shows "hanning A (int N) ! i =
     f_mul A (f_lit A 0.5)
       (f_sub A (f_lit A 1)
          (f_cos A (f_of_d A
             (d_div A (d_mul A (d_mul A (d_of_f A (f_lit A 2))
                                        (d_lit A 3.14159265358979323846))
                               (d_of_int A (int i)))
                      (d_of_int A (int N - 1))))))"
  using assms by (simp add: hanning_def M_PI_def)

lemma hanning_ieee_nth:
  assumes "i < N"
  shows "hanning ieee (int N) ! i =
     round_to 24 (round_to 24 (1 / 2)
        * round_to 24 (1 - round_to 24 (cos (hanning_angle (int i) (int N - 1)))))"
  using assms
  by (simp add: hanning_nth ieee_def hanning_angle_def of_rat_divide round_to_numeral)

lemma hanning_angle_0: "hanning_angle 0 k = 0"
  by (simp add: hanning_angle_def)

lemma hanning_angle_bounds:
  assumes "1 \<le> i" "i \<le> k" "k < 2 ^ 53"
  shows "62831849 / 10000000 * (of_int i / of_int k) \<le> hanning_angle i k"
    and "hanning_angle i k \<le> 62831858 / 10000000 * (of_int i / of_int k)"
proof -
  define P where "P = round_to 53 (314159265358979323846 / 100000000000000000000)"
  define t3 where "t3 = round_to 53 (2 * P)"
  define t4 where "t4 = round_to 53 (t3 * of_int i)"
  define t5 where "t5 = round_to 53 (t4 / of_int k)"
  define r :: real where "r = of_int i / of_int k"
  have kk: "round_to 53 (of_int k) = of_int k"
    using round_to_int [of k 53] assms by simp
  have ii: "round_to 53 (of_int i) = of_int i"
    using round_to_int [of i 53] assms by simp
  have y: "hanning_angle i k = round_to 24 t5"
    by (simp add: hanning_angle_def kk ii t5_def t4_def t3_def P_def)
  have i0: "0 < real_of_int i" and k0: "0 < real_of_int k" using assms(1,2) by simp_all
  have r0: "0 < r" using i0 k0 by (simp add: r_def)
  have p53: "0 < (53::nat)" and p24: "0 < (24::nat)" by simp_all
  have M0: "0 < (314159265358979323846 / 100000000000000000000 :: real)" by simp
  have P: "314159265 / 100000000 \<le> P" "P \<le> 314159266 / 100000000"
  proof -
    have "314159265358979323846 / 100000000000000000000 * (1 - 1 / 2 ^ 53) \<le> P"
      unfolding P_def by (rule round_to_between(1) [OF p53 M0 order_refl order_refl])
    then show "314159265 / 100000000 \<le> P" by simp
    have "P \<le> 314159265358979323846 / 100000000000000000000 * (1 + 1 / 2 ^ 53)"
      unfolding P_def by (rule round_to_between(2) [OF p53 M0 order_refl order_refl])
    then show "P \<le> 314159266 / 100000000" by simp
  qed
  have a0: "0 < (62831853 / 10000000 :: real)" by simp
  have P2: "62831853 / 10000000 \<le> 2 * P" "2 * P \<le> 628318532 / 100000000"
    using P by simp_all
  have t3: "628318529 / 100000000 \<le> t3" "t3 \<le> 628318533 / 100000000"
  proof -
    have "62831853 / 10000000 * (1 - 1 / 2 ^ 53) \<le> t3"
      unfolding t3_def by (rule round_to_between(1) [OF p53 a0 P2])
    then show "628318529 / 100000000 \<le> t3" by simp
    have "t3 \<le> 628318532 / 100000000 * (1 + 1 / 2 ^ 53)"
      unfolding t3_def by (rule round_to_between(2) [OF p53 a0 P2])
    then show "t3 \<le> 628318533 / 100000000" by simp
  qed
  have b0: "0 < 628318529 / 100000000 * real_of_int i" using i0 by simp
  have m: "628318529 / 100000000 * real_of_int i \<le> t3 * of_int i"
    "t3 * of_int i \<le> 628318533 / 100000000 * real_of_int i"
    using t3 i0 by (simp_all add: mult_right_mono)
  have t4: "6283185285 / 1000000000 * of_int i \<le> t4" "t4 \<le> 6283185335 / 1000000000 * of_int i"
  proof -
    have "628318529 / 100000000 * real_of_int i * (1 - 1 / 2 ^ 53) \<le> t4"
      unfolding t4_def by (rule round_to_between(1) [OF p53 b0 m])
    moreover have "6283185285 / 1000000000 * real_of_int i
        \<le> 628318529 / 100000000 * real_of_int i * (1 - 1 / 2 ^ 53)"
      using i0 by simp
    ultimately show "6283185285 / 1000000000 * of_int i \<le> t4" by linarith
    have "t4 \<le> 628318533 / 100000000 * real_of_int i * (1 + 1 / 2 ^ 53)"
      unfolding t4_def by (rule round_to_between(2) [OF p53 b0 m])
    moreover have "628318533 / 100000000 * real_of_int i * (1 + 1 / 2 ^ 53)
        \<le> 6283185335 / 1000000000 * real_of_int i"
      using i0 by simp
    ultimately show "t4 \<le> 6283185335 / 1000000000 * of_int i" by linarith
  qed
  have k1: "0 \<le> real_of_int k" using k0 by simp
  have q: "6283185285 / 1000000000 * r \<le> t4 / of_int k"
    "t4 / of_int k \<le> 6283185335 / 1000000000 * r"
    using divide_right_mono [OF t4(1) k1] divide_right_mono [OF t4(2) k1]
    unfolding r_def by simp_all
  have c0: "0 < 6283185285 / 1000000000 * r" using r0 by simp
  have t5: "628318528 / 100000000 * r \<le> t5" "t5 \<le> 628318534 / 100000000 * r"
  proof -
    have "6283185285 / 1000000000 * r * (1 - 1 / 2 ^ 53) \<le> t5"
      unfolding t5_def by (rule round_to_between(1) [OF p53 c0 q])
    moreover have "628318528 / 100000000 * r \<le> 6283185285 / 1000000000 * r * (1 - 1 / 2 ^ 53)"
      using r0 by simp
    ultimately show "628318528 / 100000000 * r \<le> t5" by linarith
    have "t5 \<le> 6283185335 / 1000000000 * r * (1 + 1 / 2 ^ 53)"
      unfolding t5_def by (rule round_to_between(2) [OF p53 c0 q])
    moreover have "6283185335 / 1000000000 * r * (1 + 1 / 2 ^ 53) \<le> 628318534 / 100000000 * r"
      using r0 by simp
    ultimately show "t5 \<le> 628318534 / 100000000 * r" by linarith
  qed
  have d0: "0 < 628318528 / 100000000 * r" using r0 by simp
  have "628318528 / 100000000 * r * (1 - 1 / 2 ^ 24) \<le> round_to 24 t5"
    by (rule round_to_between(1) [OF p24 d0 t5])
  moreover have "62831849 / 10000000 * r \<le> 628318528 / 100000000 * r * (1 - 1 / 2 ^ 24)"
    using r0 by simp
  ultimately show "62831849 / 10000000 * (of_int i / of_int k) \<le> hanning_angle i k"
    unfolding y r_def by linarith
  have "round_to 24 t5 \<le> 628318534 / 100000000 * r * (1 + 1 / 2 ^ 24)"
    by (rule round_to_between(2) [OF p24 d0 t5])
  moreover have "628318534 / 100000000 * r * (1 + 1 / 2 ^ 24) \<le> 62831858 / 10000000 * r"
    using r0 by simp
  ultimately show "hanning_angle i k \<le> 62831858 / 10000000 * (of_int i / of_int k)"
    unfolding y r_def by linarith
qed

lemma hanning_angle_error:
  assumes "1 \<le> i" "i \<le> k" "k < 2 ^ 53"
  shows "\<bar>hanning_angle i k - 2 * pi * (of_int i / of_int k)\<bar> \<le> 7 / 10000000"
proof -
  define r :: real where "r = of_int i / of_int k"
  have r: "0 < r" "r \<le> 1" using assms(1,2) by (simp_all add: r_def)
  have a: "62831849 / 10000000 * r \<le> hanning_angle i k"
    "hanning_angle i k \<le> 62831858 / 10000000 * r"
    using hanning_angle_bounds [OF assms] by (simp_all add: r_def)
  have "62831852 / 10000000 \<le> 2 * pi" "2 * pi \<le> 62831856 / 10000000"
    using pi_bounds by simp_all
  then have b: "62831852 / 10000000 * r \<le> 2 * pi * r" "2 * pi * r \<le> 62831856 / 10000000 * r"
    using r(1) by (simp_all add: mult_right_mono)
  show ?thesis unfolding r_def [symmetric] using a b r by linarith
qed

lemma cos_lipschitz: "\<bar>cos a - cos b\<bar> \<le> \<bar>a - b\<bar>" for a b :: real
proof -
  have "\<bar>cos a - cos b\<bar> = 2 * \<bar>sin ((a + b) / 2)\<bar> * \<bar>sin ((b - a) / 2)\<bar>"
    by (simp add: cos_diff_cos abs_mult)
  also have "\<dots> \<le> 2 * 1 * \<bar>(b - a) / 2\<bar>"
    by (intro mult_mono abs_sin_x_le_abs_x) simp_all
  finally show ?thesis by simp
qed

lemma round_to_24_half: "round_to 24 (1 / 2) = 1 / 2"
proof -
  have pw: "2 powr real_of_int (- 1 - (int 24 - 1)) = 1 / 16777216"
    by (simp add: powr_minus powr_numeral)
  have "round_to 24 (1 / 2) = of_int (round_even (1 / 2 / (1 / 16777216))) * (1 / 16777216)"
    using round_to_eval [of "- 1" "1 / 2" 24] unfolding pw by (simp add: powr_minus)
  also have "1 / 2 / (1 / 16777216) = real_of_int 8388608" by simp
  finally show ?thesis unfolding round_even_of_int by simp
qed

lemma cos_hanning_angle:
  assumes "1 \<le> k" "k < 2 ^ 53"
  shows "round_to 24 (cos (hanning_angle k k)) = 1"
proof -
  define z where "z = hanning_angle k k - 2 * pi"
  have "\<bar>z\<bar> \<le> 7 / 10000000"
    using hanning_angle_error [OF assms(1) order_refl assms(2)] assms(1) by (simp add: z_def)
  then have "z\<^sup>2 \<le> (7 / 10000000)\<^sup>2"
    by (simp add: abs_le_square_iff [symmetric])
  then have "1 - 1 / 2 ^ 25 < 1 - z\<^sup>2 / 2" by (simp add: power_divide)
  also have "\<dots> \<le> cos z" by (rule cos_lower)
  also have "cos z = cos (hanning_angle k k)"
    using cos_periodic [of z] by (simp add: z_def)
  finally show ?thesis by (rule round_to_24_near_one) simp
qed

lemma hanning_ieee_close:
  assumes "i < N" "N < 2 ^ 31"
  shows "\<bar>hanning ieee (int N) ! i - 1 / 2 * (1 - cos (2 * pi * real i / real (N - 1)))\<bar>
           \<le> 1 / 1000000"
proof (cases "i = 0")
  case True
  then show ?thesis using assms(1) by (simp add: hanning_ieee_nth hanning_angle_0)
next
  case False
  define y where "y = hanning_angle (int i) (int N - 1)"
  define t where "t = 2 * pi * real i / real (N - 1)"
  define c where "c = round_to 24 (cos y)"
  define s where "s = round_to 24 (1 - c)"
  define w where "w = round_to 24 (1 / 2 * s)"
  have ik: "1 \<le> int i" "int i \<le> int N - 1" "int N - 1 < 2 ^ 53"
    using False assms by simp_all
  have r: "real_of_int (int N - 1) = real (N - 1)" using assms(1) by simp
  have "t = 2 * pi * (real_of_int (int i) / real_of_int (int N - 1))"
    unfolding t_def r by simp
  then have "\<bar>y - t\<bar> \<le> 7 / 10000000"
    using hanning_angle_error [OF ik] unfolding y_def by simp
  then have e1: "\<bar>cos y - cos t\<bar> \<le> 7 / 10000000"
    using cos_lipschitz [of y t] by linarith
  define u :: real where "u = 1 / 2 ^ 24"
  have u: "0 \<le> u" "u \<le> 1 / 16000000" by (simp_all add: u_def)
  have cy: "\<bar>cos y\<bar> \<le> 1" by (rule abs_cos_le_one)
  have "\<bar>c - cos y\<bar> \<le> \<bar>cos y\<bar> / 2 ^ 24"
    unfolding c_def by (rule round_to_error) simp
  also have "\<dots> = \<bar>cos y\<bar> * u" by (simp add: u_def)
  also have "\<dots> \<le> 1 * u" using cy u(1) by (rule mult_right_mono)
  finally have e2: "\<bar>c - cos y\<bar> \<le> u" by simp
  have c3: "\<bar>1 - c\<bar> \<le> 3" using e2 cy u by linarith
  have "\<bar>s - (1 - c)\<bar> \<le> \<bar>1 - c\<bar> / 2 ^ 24"
    unfolding s_def by (rule round_to_error) simp
  also have "\<dots> = \<bar>1 - c\<bar> * u" by (simp add: u_def)
  also have "\<dots> \<le> 3 * u" using c3 u(1) by (rule mult_right_mono)
  finally have e3: "\<bar>s - (1 - c)\<bar> \<le> 3 * u" .
  have s4: "\<bar>1 / 2 * s\<bar> \<le> 2" using e3 c3 u by linarith
  have "\<bar>w - 1 / 2 * s\<bar> \<le> \<bar>1 / 2 * s\<bar> / 2 ^ 24"
    unfolding w_def by (rule round_to_error) simp
  also have "\<dots> = \<bar>1 / 2 * s\<bar> * u" by (simp add: u_def)
  also have "\<dots> \<le> 2 * u" using s4 u(1) by (rule mult_right_mono)
  finally have e4: "\<bar>w - 1 / 2 * s\<bar> \<le> 2 * u" .
  have "hanning ieee (int N) ! i = w"
    using assms(1) by (simp add: hanning_ieee_nth round_to_24_half w_def s_def c_def y_def)
  moreover have "\<bar>w - 1 / 2 * (1 - cos t)\<bar> \<le> 1 / 1000000"
    using e1 e2 e3 e4 u by argo
  ultimately show ?thesis by (simp add: t_def)
qed


section \<open>The claims\<close>

subsection \<open>How the main loop ends\<close>

text \<open>
  C1 (as amended): in the amplitude, power, integrated power spectrum and spectrogram
  programs a short read (fewer floats than requested: \<open>2 * N\<close>, in the spectrogram program
  \<open>N\<close>) is the sole condition that ends the main loop and is not an error: every read but the
  last is complete, the last one is short, and the run exits with status 0. In the
  amplitude-sum and power-spectrum programs the loop is bounded by the number of blocks
  computed beforehand from the file size (\<^verbatim>\<open>ftell\<close>): when the stream holds that many blocks the
  loop ends without a short read, and when it holds fewer the short read ends the run with
  exit status 1. (\<open>N\<close> ranges over \<open>2 \<le> N < 2\<^sup>3\<^sup>1\<close>, in an environment where no file or
  allocation fails, for streams of fewer than \<open>2\<^sup>3\<^sup>1\<close> blocks.)
\<close>

theorem loop_termination:
  assumes "in_file env = Some s" "name_fits env" "out_ok env" "sum_ok env" "alloc_ok env"
    "plan_ok env"
    and "2 \<le> N" "N < 2 ^ 31"
  shows
    "map_option summary (amplitude_main A env N)
       = Some (Exit 0, length s div (2 * N),
               replicate (length s div (2 * N)) (2 * N, 2 * N) @ [(2 * N, length s mod (2 * N))]) \<and>
     map_option summary (power_main A env ot N)
       = Some (Exit 0, length s div (2 * N),
               replicate (length s div (2 * N)) (2 * N, 2 * N) @ [(2 * N, length s mod (2 * N))]) \<and>
     map_option summary (integrated_main A env (int N))
       = Some (Exit 0, length s div (2 * N),
               replicate (length s div (2 * N)) (2 * N, 2 * N) @ [(2 * N, length s mod (2 * N))]) \<and>
     map_option summary (spectrogram_main A env N)
       = Some (Exit 0, length s div N,
               replicate (length s div N) (N, N) @ [(N, length s mod N)]) \<and>
     length s mod (2 * N) < 2 * N \<and> length s mod N < N \<and>
     (number_of_blocks (ftell_result env) (int N) = Some nb \<and> length s div (2 * N) < 2 ^ 31 \<longrightarrow>
        (nb \<le> int (length s div (2 * N)) \<longrightarrow>
           summary (amplitude_sum_main A env (int N))
             = (Exit 0, nat nb, replicate (nat nb) (2 * N, 2 * N)) \<and>
           summary (power_spectrum_main A env (int N))
             = (Exit 0, nat nb, replicate (nat nb) (2 * N, 2 * N))) \<and>
        (int (length s div (2 * N)) < nb \<longrightarrow>
           summary (amplitude_sum_main A env (int N))
             = (Exit 1, length s div (2 * N),
                replicate (length s div (2 * N)) (2 * N, 2 * N)
                  @ [(2 * N, length s mod (2 * N))]) \<and>
           summary (power_spectrum_main A env (int N))
             = (Exit 1, length s div (2 * N),
                replicate (length s div (2 * N)) (2 * N, 2 * N)
                  @ [(2 * N, length s mod (2 * N))])))"
proof -
  let ?K = "length s div (2 * N)"
  have N63: "N < 2 ^ 63" using assms(8) by simp
  have iN: "0 < int N" "int N < 2 ^ 31" "int N < 2 ^ 63" using assms(7,8) by simp_all
  have pos: "0 < N" using assms(7) by simp
  have a: "map_option summary (amplitude_main A env N)
       = Some (Exit 0, ?K, replicate ?K (2 * N, 2 * N) @ [(2 * N, length s mod (2 * N))])"
    using amplitude_summary [OF assms(1,2,3,5,7) N63, of A] .
  have p: "map_option summary (power_main A env ot N)
       = Some (Exit 0, ?K, replicate ?K (2 * N, 2 * N) @ [(2 * N, length s mod (2 * N))])"
    using power_summary [of env s ot N A] assms(1,3,4,5) N63 pos by simp
  have i: "map_option summary (integrated_main A env (int N))
       = Some (Exit 0, ?K, replicate ?K (2 * N, 2 * N) @ [(2 * N, length s mod (2 * N))])"
    using integrated_summary [OF assms(1,5,6,3) iN(1,3), of A] by simp
  have g: "map_option summary (spectrogram_main A env N)
       = Some (Exit 0, length s div N, replicate (length s div N) (N, N) @ [(N, length s mod N)])"
    using spectrogram_summary [OF assms(1,2,3,5,6,7), of A] .
  have m: "length s mod (2 * N) < 2 * N" "length s mod N < N" using pos by simp_all
  have c: "item_floats (int N) = 2 * N" using item_floats_small [OF iN(1,2)] by simp
  have cpos: "0 < item_floats (int N)" using c pos by simp
  have f1: "summary (amplitude_sum_main A env (int N))
             = (Exit 0, nat nb, replicate (nat nb) (2 * N, 2 * N)) \<and>
           summary (power_spectrum_main A env (int N))
             = (Exit 0, nat nb, replicate (nat nb) (2 * N, 2 * N))"
    if h: "number_of_blocks (ftell_result env) (int N) = Some nb" "?K < 2 ^ 31" "nb \<le> int ?K"
  proof -
    have "int ?K < 2 ^ 31" using h(2) by (simp flip: of_nat_less_iff)
    then have nb31: "nb < 2 ^ 31" using h(3) by linarith
    have le: "nat nb \<le> length s div item_floats (int N)" using h(3) by (simp add: c)
    show ?thesis
      using amplitude_sum_summary_complete [OF assms(1,5,3) h(1) cpos nb31 le, of A]
        power_spectrum_summary_complete [OF assms(1,5,3) h(1) cpos nb31 le, of A]
      by (simp add: c)
  qed
  have f2: "summary (amplitude_sum_main A env (int N))
             = (Exit 1, ?K, replicate ?K (2 * N, 2 * N) @ [(2 * N, length s mod (2 * N))]) \<and>
           summary (power_spectrum_main A env (int N))
             = (Exit 1, ?K, replicate ?K (2 * N, 2 * N) @ [(2 * N, length s mod (2 * N))])"
    if h: "number_of_blocks (ftell_result env) (int N) = Some nb" "?K < 2 ^ 31" "int ?K < nb"
  proof -
    have lt: "int (length s div item_floats (int N)) < nb" using h(3) by (simp add: c)
    have b: "length s div item_floats (int N) < 2 ^ 31" using h(2) by (simp add: c)
    show ?thesis
      using amplitude_sum_summary_short [OF assms(1,5,3) h(1) cpos lt b, of A]
        power_spectrum_summary_short [OF assms(1,5,3) h(1) cpos lt b, of A]
      by (simp add: c)
  qed
  show ?thesis using a p i g m f1 f2 by blast
qed

theorem loop_termination_witness:
  "number_of_blocks (ftell_result (regular_file [1, 2, 3, 4])) 2 = Some 1 \<and>
   number_of_blocks (ftell_result (fifo [1, 2, 3, 4])) 2 = Some 1152921504606846975 \<and>
   map_option summary (amplitude_main ieee (regular_file [1, 2, 3, 4]) 2)
     = Some (Exit 0, 1, [(4, 4), (4, 0)]) \<and>
   map_option summary (power_main ieee (regular_file [1, 2, 3, 4]) OUTPUT_SUM 2)
     = Some (Exit 0, 1, [(4, 4), (4, 0)]) \<and>
   map_option summary (integrated_main ieee (regular_file [1, 2, 3, 4]) 2)
     = Some (Exit 0, 1, [(4, 4), (4, 0)]) \<and>
   map_option summary (spectrogram_main ieee (regular_file [1, 2, 3, 4]) 2)
     = Some (Exit 0, 2, [(2, 2), (2, 2), (2, 0)]) \<and>
   summary (amplitude_sum_main ieee (regular_file [1, 2, 3, 4]) 2) = (Exit 0, 1, [(4, 4)]) \<and>
   summary (power_spectrum_main ieee (regular_file [1, 2, 3, 4]) 2) = (Exit 0, 1, [(4, 4)]) \<and>
   summary (amplitude_sum_main ieee (fifo [1, 2, 3, 4]) 2) = (Exit 1, 1, [(4, 4), (4, 0)]) \<and>
   summary (power_spectrum_main ieee (fifo [1, 2, 3, 4]) 2) = (Exit 1, 1, [(4, 4), (4, 0)])"
proof -
  have len: "length [1, 2, 3, 4 :: real] = 4" by simp
  have r: "number_of_blocks (ftell_result (regular_file [1, 2, 3, 4])) 2 = Some 1"
    by (simp add: regular_file_def number_of_blocks_16)
  have f: "number_of_blocks (ftell_result (fifo [1, 2, 3, 4])) 2 = Some 1152921504606846975"
    by (simp add: regular_file_def fifo_def number_of_blocks_fifo)
  show ?thesis
    using loop_termination [where env = "regular_file [1, 2, 3, 4]" and s = "[1, 2, 3, 4]"
        and N = 2 and A = ieee and ot = OUTPUT_SUM and nb = 1, unfolded len]
      loop_termination [where env = "fifo [1, 2, 3, 4]" and s = "[1, 2, 3, 4]"
        and N = 2 and A = ieee and ot = OUTPUT_SUM and nb = 1152921504606846975, unfolded len]
      r f
    by (simp add: regular_file_def fifo_def replicate_2)
qed


text \<open>
  C1 as stated fails for the amplitude-sum program. On a regular file of exactly one block the
  loop ends after one complete read, by the count taken from the file size; and when the
  same four floats arrive through a pipe (\<^verbatim>\<open>ftell\<close> returns \<open>-1\<close>), the short read that
  follows the block is reported as an error.
\<close>

theorem amplitude_sum_stops_by_count:
  "summary (amplitude_sum_main ieee (regular_file [3, 4, 0, 0]) 2) = (Exit 0, 1, [(4, 4)]) \<and>
   summary (amplitude_sum_main ieee (fifo [3, 4, 0, 0]) 2) = (Exit 1, 1, [(4, 4), (4, 0)])"
proof -
  have len: "length [3, 4, 0, 0 :: real] = 4" by simp
  have a: "summary (amplitude_sum_main ieee (regular_file [3, 4, 0, 0]) 2) = (Exit 0, 1, [(4, 4)])"
    using amplitude_sum_summary_complete [of "regular_file [3, 4, 0, 0]" "[3, 4, 0, 0]" 2 1 ieee,
        unfolded len]
    by (simp add: regular_file_def number_of_blocks_16 item_floats_2)
  have b: "summary (amplitude_sum_main ieee (fifo [3, 4, 0, 0]) 2) = (Exit 1, 1, [(4, 4), (4, 0)])"
    using amplitude_sum_summary_short [of "fifo [3, 4, 0, 0]" "[3, 4, 0, 0]" 2
        1152921504606846975 ieee, unfolded len]
    by (simp add: regular_file_def fifo_def number_of_blocks_fifo item_floats_2)
  show ?thesis using a b by simp
qed

subsection \<open>Blocks per stream\<close>

text \<open>
  C2 (as amended): in the amplitude, power and integrated power spectrum programs each
  iteration of the loop requests exactly \<open>2 * N\<close> floats, and a stream of \<open>k * 2 * N + r\<close> floats
  with \<open>r < 2 * N\<close> yields exactly \<open>k\<close> processed blocks and exit status 0, the last read
  consuming the \<open>r\<close> trailing floats, which are discarded. The amplitude-sum and
  power-spectrum programs do the same, without the last read, when \<^verbatim>\<open>ftell\<close> reports the size
  of the stream. The spectrogram program requests \<open>N\<close> floats per iteration, so that a stream
  of \<open>n\<close> floats yields \<open>n div N\<close> blocks there.
  (\<open>N\<close> ranges over \<open>2 \<le> N < 2\<^sup>3\<^sup>1\<close>, in an environment where no file or allocation fails.)
\<close>

theorem blocks_per_stream:
  assumes "in_file env = Some s" "name_fits env" "out_ok env" "sum_ok env" "alloc_ok env"
    "plan_ok env"
    and "2 \<le> N" "N < 2 ^ 31"
    and "length s = k * (2 * N) + r" "r < 2 * N"
  shows
    "map_option summary (amplitude_main A env N)
       = Some (Exit 0, k, replicate k (2 * N, 2 * N) @ [(2 * N, r)]) \<and>
     map_option summary (power_main A env ot N)
       = Some (Exit 0, k, replicate k (2 * N, 2 * N) @ [(2 * N, r)]) \<and>
     map_option summary (integrated_main A env (int N))
       = Some (Exit 0, k, replicate k (2 * N, 2 * N) @ [(2 * N, r)]) \<and>
     (ftell_result env = 4 * int (length s) \<and> length s < 2 ^ 61 \<and> k < 2 ^ 31 \<longrightarrow>
        summary (amplitude_sum_main A env (int N)) = (Exit 0, k, replicate k (2 * N, 2 * N)) \<and>
        summary (power_spectrum_main A env (int N)) = (Exit 0, k, replicate k (2 * N, 2 * N))) \<and>
     map_option summary (spectrogram_main A env N)
       = Some (Exit 0, length s div N, replicate (length s div N) (N, N) @ [(N, length s mod N)])"
proof -
  note dm = div_mod_decomp [OF assms(9,10)]
  have N63: "N < 2 ^ 63" using assms(8) by simp
  have iN: "0 < int N" "int N < 2 ^ 31" "int N < 2 ^ 63" using assms(7,8) by simp_all
  have a: "map_option summary (amplitude_main A env N)
       = Some (Exit 0, k, replicate k (2 * N, 2 * N) @ [(2 * N, r)])"
    using amplitude_summary [OF assms(1,2,3,5,7) N63, of A] by (simp add: dm)
  have "0 < N" using assms(7) by simp
  then have p: "map_option summary (power_main A env ot N)
       = Some (Exit 0, k, replicate k (2 * N, 2 * N) @ [(2 * N, r)])"
    using power_summary [of env s ot N A] assms(1,3,4,5) N63 by (simp add: dm)
  have i: "map_option summary (integrated_main A env (int N))
       = Some (Exit 0, k, replicate k (2 * N, 2 * N) @ [(2 * N, r)])"
    using integrated_summary [OF assms(1,5,6,3) iN(1,3), of A] by (simp add: dm)
  have g: "map_option summary (spectrogram_main A env N)
       = Some (Exit 0, length s div N, replicate (length s div N) (N, N) @ [(N, length s mod N)])"
    using spectrogram_summary [OF assms(1,2,3,5,6,7), of A] .
  have f: "summary (amplitude_sum_main A env (int N)) = (Exit 0, k, replicate k (2 * N, 2 * N)) \<and>
        summary (power_spectrum_main A env (int N)) = (Exit 0, k, replicate k (2 * N, 2 * N))"
    if h: "ftell_result env = 4 * int (length s)" "length s < 2 ^ 61" "k < 2 ^ 31"
  proof -
    have c: "item_floats (int N) = 2 * N" using item_floats_small [OF iN(1,2)] by simp
    have nb: "number_of_blocks (ftell_result env) (int N) = Some (int k)"
      using number_of_blocks_regular [OF iN(1,2) h(2)] h(1) by (simp add: dm)
    have pos: "0 < item_floats (int N)" using c assms(7) by simp
    have k31: "int k < 2 ^ 31" using h(3) by (simp flip: of_nat_less_iff)
    have le: "nat (int k) \<le> length s div item_floats (int N)" by (simp add: c dm)
    show ?thesis
      using amplitude_sum_summary_complete [OF assms(1,5,3) nb pos k31 le, of A]
        power_spectrum_summary_complete [OF assms(1,5,3) nb pos k31 le, of A]
      by (simp add: c)
  qed
  show ?thesis using a p i g f by blast
qed

theorem blocks_per_stream_witness:
  "length [1, 2, 3, 4, 5 :: real] = 1 * (2 * 2) + 1 \<and> (1::nat) < 2 * 2 \<and>
   map_option summary (amplitude_main ieee (regular_file [1, 2, 3, 4, 5]) 2)
     = Some (Exit 0, 1, [(4, 4), (4, 1)]) \<and>
   map_option summary (power_main ieee (regular_file [1, 2, 3, 4, 5]) OUTPUT_BOTH 2)
     = Some (Exit 0, 1, [(4, 4), (4, 1)]) \<and>
   map_option summary (integrated_main ieee (regular_file [1, 2, 3, 4, 5]) 2)
     = Some (Exit 0, 1, [(4, 4), (4, 1)]) \<and>
   summary (amplitude_sum_main ieee (regular_file [1, 2, 3, 4, 5]) 2)
     = (Exit 0, 1, [(4, 4)]) \<and>
   summary (power_spectrum_main ieee (regular_file [1, 2, 3, 4, 5]) 2)
     = (Exit 0, 1, [(4, 4)]) \<and>
   map_option summary (spectrogram_main ieee (regular_file [1, 2, 3, 4, 5]) 2)
     = Some (Exit 0, 2, [(2, 2), (2, 2), (2, 1)])"
proof -
  have len: "length [1, 2, 3, 4, 5 :: real] = 5" by simp
  show ?thesis
    using blocks_per_stream [where env = "regular_file [1, 2, 3, 4, 5]"
        and s = "[1, 2, 3, 4, 5]" and N = 2 and k = 1 and r = 1 and A = ieee
        and ot = OUTPUT_BOTH, unfolded len]
    by (simp add: regular_file_def replicate_2)
qed


text \<open>
  C2 as stated fails for the spectrogram program: with \<open>N = 2\<close>, a stream of \<open>7 = 1 * 4 + 3\<close>
  floats yields three blocks, not one, and every read requests two floats, not four.
\<close>

theorem spectrogram_reads_half_blocks:
  "length [1, 2, 3, 4, 5, 6, 7 :: real] = 1 * (2 * 2) + 3 \<and> (0::nat) < 3 \<and> (3::nat) < 2 * 2 \<and>
   map_option summary (spectrogram_main ieee (regular_file [1, 2, 3, 4, 5, 6, 7]) 2)
     = Some (Exit 0, 3, [(2, 2), (2, 2), (2, 2), (2, 1)])"
proof -
  have len: "length [1, 2, 3, 4, 5, 6, 7 :: real] = 7" by simp
  show ?thesis
    using spectrogram_summary [of "regular_file [1, 2, 3, 4, 5, 6, 7]"
        "[1, 2, 3, 4, 5, 6, 7]" 2 ieee, unfolded len]
    by (simp add: regular_file_def replicate_3)
qed


subsection \<open>Validation of \<^verbatim>\<open>samples_per_block\<close>\<close>

text \<open>
  C6 (as amended): the amplitude and the spectrogram program reject a \<^verbatim>\<open>samples_per_block\<close>
  below 2 (that is 0 or 1) with exit status 1 before the input file is opened; the
  integrated power spectrum program rejects a value of 0 or less, also before the input file
  is opened; the power program rejects only 0, after it has opened the input file and
  before it reads from it.
\<close>

theorem invalid_samples_per_block:
  "(spb < 2 \<longrightarrow> amplitude_main A env spb = Some \<lparr>status = Exit 1, events = [], blocks = 0\<rparr>) \<and>
   (spb < 2 \<longrightarrow> spectrogram_main A env spb = Some \<lparr>status = Exit 1, events = [], blocks = 0\<rparr>) \<and>
   (n \<le> 0 \<longrightarrow> integrated_main A env n = Some \<lparr>status = Exit 1, events = [], blocks = 0\<rparr>) \<and>
   power_main A env ot 0 = Some \<lparr>status = Exit 1, events = [Fopen Infile], blocks = 0\<rparr>"
  by (simp add: amplitude_main_def spectrogram_main_def integrated_main_def power_main_def
        abort_def split: option.split)

theorem invalid_samples_per_block_witness:
  "(1::nat) < 2 \<and>
   amplitude_main ieee (regular_file [3, 4]) 1
     = Some \<lparr>status = Exit 1, events = [], blocks = 0\<rparr> \<and>
   spectrogram_main ieee (regular_file [3, 4]) 1
     = Some \<lparr>status = Exit 1, events = [], blocks = 0\<rparr> \<and>
   (0::int) \<le> 0 \<and>
   integrated_main ieee (regular_file [3, 4]) 0
     = Some \<lparr>status = Exit 1, events = [], blocks = 0\<rparr> \<and>
   power_main ieee (regular_file [3, 4]) OUTPUT_SUM 0
     = Some \<lparr>status = Exit 1, events = [Fopen Infile], blocks = 0\<rparr>"
  using invalid_samples_per_block [of 1 ieee "regular_file [3, 4]" 0 OUTPUT_SUM]
  by simp

text \<open>
  C6 as stated ("in every mode, a value less than 2 is rejected before any I/O on the input")
  fails: with \<^verbatim>\<open>samples_per_block\<close> = 1 the power program reads the file and processes one
  block per I/Q pair.
\<close>

theorem power_accepts_one:
  "power_main ieee (regular_file [3, 4]) OUTPUT_SUM 1 =
     Some \<lparr>status = Exit 0,
           events = [Fopen Infile, Fopen Sumfile, Fread 2 2, Put_line_f 0 25, Fread 2 0],
           blocks = 1\<rparr>"
proof -
  have "power_block ieee OUTPUT_SUM 1 0 [3, 4] = [Put_line_f 0 25]"
    by (simp add: power_block_def power_step_def sample_power_def ieee_def round_to_numeral)
  then show ?thesis
    using power_main_run [of "regular_file [3, 4]" "[3, 4]" OUTPUT_SUM 1 ieee]
    by (simp add: regular_file_def block_at_def)
qed

subsection \<open>Raw and summed power\<close>



subsection \<open>The spectrogram\<close>

text \<open>
  C4: in spectrogram mode every processed block produces exactly \<open>N div 2 + 1\<close> output values
  (bins \<open>0..N/2\<close>), and value \<open>i\<close> is \<^verbatim>\<open>10.0f * log10f(p + 1e-10f)\<close> where \<open>p\<close> is the squared
  magnitude \<^verbatim>\<open>real * real + imag * imag\<close> of bin \<open>i\<close> of the forward transform of the block
  multiplied elementwise by the window; the epsilon is added for every value of \<open>p\<close>, there
  is no branch on zero power. (\<open>2 \<le> N < 2\<^sup>3\<^sup>1\<close>; the first conjunct says that what a run
  writes is these rows, one per block, with the window of \<^verbatim>\<open>init_fftw\<close>.)
\<close>

theorem spectrogram_row_values:
  assumes "in_file env = Some s" "name_fits env" "out_ok env" "alloc_ok env" "plan_ok env"
    and "2 \<le> N" "N < 2 ^ 31"
  shows "map_option (\<lambda>out. f32_values (events out)) (spectrogram_main A env N)
       = Some (concat (map (\<lambda>k. spectrogram_row A (hanning A (int N)) (block_at N s k) (int N))
                           [0..<length s div N])) \<and>
     length (spectrogram_row A w block (int N)) = N div 2 + 1 \<and>
     (\<forall>i \<le> N div 2.
        spectrogram_row A w block (int N) ! i =
          f_mul A (f_lit A 10)
            (f_log10 A
               (f_add A
                  (let z = fftwf_dft A
                             (map (\<lambda>j. (f_mul A (block ! j) (w ! j), f_lit A 0)) [0..<N]) ! i
                   in f_add A (f_mul A (fst z) (fst z)) (f_mul A (snd z) (snd z)))
                  (f_lit A (1 / 10 ^ 10)))))"
proof -
  have "map_option (\<lambda>out. f32_values (events out)) (spectrogram_main A env N)
       = Some (concat (map (\<lambda>k. spectrogram_row A (hanning A (int N)) (block_at N s k) (int N))
                           [0..<length s div N]))"
    using spectrogram_main_run [OF assms(1-6), of A] assms(7)
    by (simp add: int_of_size_t_small f32_values_concat)
  then show ?thesis
    using length_spectrogram_row [of A w block N] spectrogram_row_nth [of _ N A w block]
    by blast
qed

theorem spectrogram_row_values_witness:
  "map_option (\<lambda>out. f32_values (events out)) (spectrogram_main ieee (regular_file [1, 2, 3]) 2)
       = Some (spectrogram_row ieee (hanning ieee 2) [1, 2] 2) \<and>
   length (spectrogram_row ieee (hanning ieee 2) [1, 2] 2) = 2 \<and>
   spectrogram_row ieee (hanning ieee 2) [1, 2] 2 ! 1 =
     f_mul ieee (f_lit ieee 10)
       (f_log10 ieee
          (f_add ieee
             (let z = fftwf_dft ieee
                        [(f_mul ieee 1 (hanning ieee 2 ! 0), f_lit ieee 0),
                         (f_mul ieee 2 (hanning ieee 2 ! 1), f_lit ieee 0)] ! 1
              in f_add ieee (f_mul ieee (fst z) (fst z)) (f_mul ieee (snd z) (snd z)))
             (f_lit ieee (1 / 10 ^ 10))))"
proof -
  have len: "length [1, 2, 3 :: real] = 3" by simp
  have env: "in_file (regular_file [1, 2, 3]) = Some [1, 2, 3]"
    "name_fits (regular_file [1, 2, 3])" "out_ok (regular_file [1, 2, 3])"
    "alloc_ok (regular_file [1, 2, 3])" "plan_ok (regular_file [1, 2, 3])"
    by (simp_all add: regular_file_def)
  have N: "2 \<le> (2::nat)" "(2::nat) < 2 ^ 31" by simp_all
  show ?thesis
    using spectrogram_row_values [OF env N, of ieee "hanning ieee 2" "[1, 2]", unfolded len]
    by (simp add: block_at_def upt_0_2)
qed

text \<open>
  C9 (as amended): the binary output of the spectrogram program is a header of four bytes
  holding \<^verbatim>\<open>samples_per_block\<close>, followed by nothing but consecutive rows of \<open>N div 2 + 1\<close>
  float32 values, one row per processed block (\<open>2 \<le> N < 2\<^sup>3\<^sup>1\<close>).
\<close>

theorem spectrogram_output:
  assumes "in_file env = Some s" "name_fits env" "out_ok env" "alloc_ok env" "plan_ok env"
    and "2 \<le> N" "N < 2 ^ 31"
  shows "map_option (\<lambda>out. written (events out)) (spectrogram_main A env N)
       = Some (Put_header N
               # concat (map (\<lambda>k. map Put_f32
                                 (spectrogram_row A (hanning A (int N)) (block_at N s k) (int N)))
                             [0..<length s div N])) \<and>
     map_option blocks (spectrogram_main A env N) = Some (length s div N) \<and>
     (\<forall>k < length s div N.
        length (spectrogram_row A (hanning A (int N)) (block_at N s k) (int N)) = N div 2 + 1)"
proof -
  have h: "N mod 2 ^ 32 = N" using assms(7) by simp
  show ?thesis
    using spectrogram_main_run [OF assms(1-6), of A] assms(7)
    by (simp add: h int_of_size_t_small written_concat length_spectrogram_row)
qed

theorem spectrogram_output_witness:
  "map_option (\<lambda>out. written (events out)) (spectrogram_main ieee (regular_file [1, 2, 3]) 2)
       = Some (Put_header 2
               # map Put_f32 (spectrogram_row ieee (hanning ieee 2) [1, 2] 2)) \<and>
   map_option blocks (spectrogram_main ieee (regular_file [1, 2, 3]) 2) = Some 1 \<and>
   length (spectrogram_row ieee (hanning ieee 2) [1, 2] 2) = 2"
proof -
  have len: "length [1, 2, 3 :: real] = 3" by simp
  have env: "in_file (regular_file [1, 2, 3]) = Some [1, 2, 3]"
    "name_fits (regular_file [1, 2, 3])" "out_ok (regular_file [1, 2, 3])"
    "alloc_ok (regular_file [1, 2, 3])" "plan_ok (regular_file [1, 2, 3])"
    by (simp_all add: regular_file_def)
  have N: "2 \<le> (2::nat)" "(2::nat) < 2 ^ 31" by simp_all
  show ?thesis
    using spectrogram_output [OF env N, of ieee, unfolded len]
    by (simp add: block_at_def)
qed


text \<open>
  C9 as stated ("exclusively rows of floats, no other data") fails: the first thing written
  is the header.
\<close>

theorem spectrogram_writes_header:
  "map_option (\<lambda>out. take 1 (written (events out)))
     (spectrogram_main ieee (regular_file [1, 2]) 2) = Some [Put_header 2]"
proof -
  have len: "length [1, 2 :: real] = 2" by simp
  show ?thesis
    using spectrogram_main_run [of "regular_file [1, 2]" "[1, 2]" 2 ieee, unfolded len]
    by (simp add: regular_file_def)
qed


subsection \<open>The integrated power spectrum\<close>

text \<open>
  C3 (as amended): in a run of the integrated power spectrum program that processes \<open>B \<ge> 1\<close>
  complete blocks, the value emitted for bin \<open>i\<close> is the mean, not the sum, over the \<open>B\<close> blocks
  of \<^verbatim>\<open>out[i] * out[i]\<close>, where \<^verbatim>\<open>out\<close> is the real output of the complex-to-real transform
  (\<^verbatim>\<open>fftwf_plan_dft_c2r_1d\<close>) that the program runs on the block: the accumulator starts at
  zero, adds \<^verbatim>\<open>out[i] * out[i]\<close> once per block, in the order of the blocks, and is divided by
  \<open>B\<close> once before it is printed. The run exits with status 0 and prints one line per bin.
  For two blocks of four samples the transform gives \<open>[8, -4, 0, 0]\<close> and \<open>[6, -2, 2, 2]\<close>,
  and the program prints the means \<open>50, 10, 2, 2\<close> of their squares.
\<close>

theorem integrated_is_mean:
  assumes "in_file env = Some s" "alloc_ok env" "plan_ok env" "out_ok env"
    and "0 < N" "N < 2 ^ 31"
    and "B = length s div (2 * N)" "1 \<le> B"
  shows "map_option (\<lambda>out. (status out, blocks out, text_lines (events out)))
           (integrated_main A env (int N))
     = Some (Exit 0, B,
         map (\<lambda>i. (i, f_div A
                       (foldl (f_add A) (f_lit A 0)
                          (map (\<lambda>k. f_mul A
                                  (fftwf_c2r A (iq_complex N (block_at (2 * N) s k)) ! i)
                                  (fftwf_c2r A (iq_complex N (block_at (2 * N) s k)) ! i))
                               [0..<B]))
                       (f_of_size A B)))
             [0..<N])"
proof -
  have iN: "0 < int N" "int N < 2 ^ 63" using assms(5,6) by simp_all
  let ?acc = "foldl (\<lambda>acc k. process_block A N (block_at (2 * N) s k) acc)
                (replicate N (f_lit A 0)) [0..<B]"
  have v: "average A N B ?acc ! i =
      f_div A (foldl (f_add A) (f_lit A 0)
                 (map (\<lambda>k. f_mul A (fftwf_c2r A (iq_complex N (block_at (2 * N) s k)) ! i)
                                    (fftwf_c2r A (iq_complex N (block_at (2 * N) s k)) ! i))
                      [0..<B]))
              (f_of_size A B)" if "i < N" for i
    using that assms(8) by (simp add: average_nth foldl_process_block_nth)
  have "map (\<lambda>i. (i, average A N B ?acc ! i)) [0..<N] =
      map (\<lambda>i. (i, f_div A (foldl (f_add A) (f_lit A 0)
                 (map (\<lambda>k. f_mul A (fftwf_c2r A (iq_complex N (block_at (2 * N) s k)) ! i)
                                    (fftwf_c2r A (iq_complex N (block_at (2 * N) s k)) ! i))
                      [0..<B]))
              (f_of_size A B))) [0..<N]"
    by (rule map_cong) (simp_all add: v)
  then show ?thesis
    using integrated_main_run [OF assms(1-4) iN, of A] assms(7)
    by simp
qed

theorem integrated_is_mean_witness:
  "(2::nat) = length [1, 0, 2, 1, 3, 0, 5, 7, 2, 0, 1, 1, 2, 0, 9, 9 :: real] div (2 * 4) \<and>
   map_option (\<lambda>out. (status out, blocks out, text_lines (events out)))
       (integrated_main ieee (regular_file [1, 0, 2, 1, 3, 0, 5, 7, 2, 0, 1, 1, 2, 0, 9, 9]) 4)
     = Some (Exit 0, 2, [(0, 50), (1, 10), (2, 2), (3, 2)])"
proof -
  define s :: "real list" where "s = [1, 0, 2, 1, 3, 0, 5, 7, 2, 0, 1, 1, 2, 0, 9, 9]"
  have env: "in_file (regular_file s) = Some s"
    "alloc_ok (regular_file s)" "plan_ok (regular_file s)" "out_ok (regular_file s)"
    by (simp_all add: regular_file_def)
  have N: "0 < (4::nat)" "(4::nat) < 2 ^ 31" by simp_all
  have B: "(2::nat) = length s div (2 * 4)" "1 \<le> (2::nat)" by (simp_all add: s_def)
  have blk: "iq_complex 4 (block_at 8 s 0) = [(1, 0), (2, 1), (3, 0), (5, 7)]"
    "iq_complex 4 (block_at 8 s (Suc 0)) = [(2, 0), (1, 1), (2, 0), (9, 9)]"
    by (simp_all add: iq_complex_def block_at_def upt_0_4 s_def)
  have "map_option (\<lambda>out. (status out, blocks out, text_lines (events out)))
       (integrated_main ieee (regular_file s) 4)
     = Some (Exit 0, 2, [(0, 50), (1, 10), (2, 2), (3, 2)])"
    using integrated_is_mean [OF env N B, of ieee]
    by (simp add: blk c2r_ieee_4 upt_0_2 upt_0_4 ieee_simps round_to_numeral
        round_to_neg_numeral)
  then show ?thesis using B(1) unfolding s_def by simp
qed

text \<open>
  C3 as stated, with the emitted value the mean of \<open>Re(FFT(block))\<^sup>2\<close>, does not hold: the
  output of the complex-to-real transform is not the real part of the forward transform from
  four samples on. For the single block of four samples \<open>0, 0, 0, 1\<close> (all \<open>Q = 0\<close>) the
  program prints 0 for every bin, while the real part of bin 0 of the forward transform is 1
  and so is the mean of its square.
\<close>

theorem integrated_is_not_re_fft:
  "map_option (\<lambda>out. (status out, blocks out, text_lines (events out)))
       (integrated_main ieee (regular_file [0, 0, 0, 0, 0, 0, 1, 0]) 4)
     = Some (Exit 0, 1, [(0, 0), (1, 0), (2, 0), (3, 0)]) \<and>
   integrated_spec ieee 4 [0, 0, 0, 0, 0, 0, 1, 0] 0 = 1"
proof -
  define s :: "real list" where "s = [0, 0, 0, 0, 0, 0, 1, 0]"
  have env: "in_file (regular_file s) = Some s"
    "alloc_ok (regular_file s)" "plan_ok (regular_file s)" "out_ok (regular_file s)"
    by (simp_all add: regular_file_def)
  have N: "0 < (4::int)" "(4::int) < 2 ^ 63" by simp_all
  have len: "length s div 8 = 1" by (simp add: s_def)
  have blk: "iq_complex 4 (block_at 8 s 0) = [(0, 0), (0, 0), (0, 0), (1, 0)]"
    by (simp add: iq_complex_def block_at_def upt_0_4 s_def)
  have v: "average ieee 4 (Suc 0)
      (process_block ieee 4 (block_at 8 s 0) (replicate 4 (f_lit ieee 0))) ! i = 0"
    if "i < 4" for i
    using that foldl_process_block_nth [of i 4 "replicate 4 (f_lit ieee 0)" ieee
        "\<lambda>k. block_at 8 s k" "[0]"]
    by (simp add: average_nth blk c2r_ieee_4 ieee_simps nth_zeros_4)
  have run: "map_option (\<lambda>out. (status out, blocks out, text_lines (events out)))
       (integrated_main ieee (regular_file s) 4)
     = Some (Exit 0, 1, [(0, 0), (1, 0), (2, 0), (3, 0)])"
    using integrated_main_run [OF env N, of ieee] by (simp add: len upt_0_4 v)
  have spec: "integrated_spec ieee 4 s 0 = 1"
    by (simp add: integrated_spec_def re_fft_power_def len blk dft_ieee_4_0 ieee_simps)
  show ?thesis using run spec unfolding s_def by simp
qed


text \<open>
  C10: when the input holds fewer than \<open>2 * N\<close> floats, the integrated power spectrum program
  processes no block, still exits with status 0, and prints exactly \<open>N\<close> lines whose value
  is the zero the accumulator was allocated with; with a block count of zero the averaging
  step leaves every accumulator as it is, so that no division takes place (the statement
  holds for every arithmetic, whatever its division does).
\<close>

theorem integrated_no_blocks:
  assumes "in_file env = Some s" "alloc_ok env" "plan_ok env" "out_ok env"
    and "0 < N" "N < 2 ^ 31"
    and "length s < 2 * N"
  shows "map_option (\<lambda>out. (status out, blocks out, text_lines (events out)))
           (integrated_main A env (int N))
     = Some (Exit 0, 0, map (\<lambda>i. (i, f_lit A 0)) [0..<N]) \<and>
     average A N 0 power_spectrum = power_spectrum"
proof -
  have iN: "0 < int N" "int N < 2 ^ 63" using assms(5,6) by simp_all
  have "map (\<lambda>i. (i, replicate N (f_lit A 0) ! i)) [0..<N] = map (\<lambda>i. (i, f_lit A 0)) [0..<N]"
    by (rule map_cong) simp_all
  then show ?thesis
    using integrated_main_run [OF assms(1-4) iN, of A] assms(7)
    by (simp add: average_def)
qed

theorem integrated_no_blocks_witness:
  "length [3, 4, 1 :: real] < 2 * 2 \<and>
   map_option (\<lambda>out. (status out, blocks out, text_lines (events out)))
       (integrated_main ieee (regular_file [3, 4, 1]) 2)
     = Some (Exit 0, 0, [(0, 0), (1, 0)]) \<and>
   average ieee 2 0 [0, 0] = [0, 0]"
proof -
  have env: "in_file (regular_file [3, 4, 1]) = Some [3, 4, 1]"
    "alloc_ok (regular_file [3, 4, 1])" "plan_ok (regular_file [3, 4, 1])"
    "out_ok (regular_file [3, 4, 1])"
    by (simp_all add: regular_file_def)
  have N: "0 < (2::nat)" "(2::nat) < 2 ^ 31" by simp_all
  have l: "length [3, 4, 1 :: real] < 2 * 2" by simp
  show ?thesis
    using integrated_no_blocks [OF env N l, of ieee "[0, 0]"] l
    by (simp add: upt_0_2 ieee_simps)
qed


text \<open>
  C5 (as amended): in the integrated power spectrum program the power of a bin is computed in
  single precision and is also accumulated in single precision: the accumulator is an array
  of \<^verbatim>\<open>float\<close>, and \<^verbatim>\<open>process_block\<close> replaces bin \<open>i\<close> by the \<^verbatim>\<open>float\<close> sum of its old value and
  \<^verbatim>\<open>out[i] * out[i]\<close>.
\<close>

theorem accumulation_in_float:
  assumes "i < n" "n \<le> length power_spectrum"
  shows "process_block A n iq_data power_spectrum ! i =
     f_add A (power_spectrum ! i)
       (f_mul A (fftwf_c2r A (iq_complex n iq_data) ! i)
                (fftwf_c2r A (iq_complex n iq_data) ! i))"
  using assms by (simp add: process_block_nth)

theorem accumulation_in_float_witness:
  "(0::nat) < 2 \<and> 2 \<le> length [0, 0 :: real] \<and>
   process_block ieee 2 [4096, 0, 0, 0] [0, 0] ! 0 = 16777216"
  using accumulation_in_float [of 0 2 "[0, 0]" ieee "[4096, 0, 0, 0]"]
  by (simp add: iq_complex_def upt_0_2 c2r_ieee_2 ieee_simps round_to_numeral round_to_24_top)


text \<open>
  C5 as stated ("accumulation is performed in double precision") fails. In the reference
  arithmetic, two blocks with bin powers \<open>2\<^sup>2\<^sup>4\<close> and \<open>1\<close> leave \<open>2\<^sup>2\<^sup>4\<close> in the accumulator of the
  code, where an accumulator of type \<^verbatim>\<open>double\<close> would hold \<open>2\<^sup>2\<^sup>4 + 1\<close>.
\<close>

theorem float_accumulator_drops_small_power:
  "process_block ieee 2 [1, 0, 0, 0] (process_block ieee 2 [4096, 0, 0, 0] [0, 0])
     = [16777216, 16777216] \<and>
   process_block_spec ieee 2 [1, 0, 0, 0] (process_block_spec ieee 2 [4096, 0, 0, 0] [0, 0])
     = [16777217, 16777217]"
  by (simp add: process_block_def process_block_spec_def accumulate_def iq_complex_def upt_0_2
        c2r_ieee_2 ieee_simps round_to_numeral round_to_24_top round_to_24_tie)

subsection \<open>The window\<close>

text \<open>
  C7: for every \<open>N \<ge> 2\<close> the window that \<^verbatim>\<open>init_fftw\<close> computes for the spectrogram has \<open>N\<close>
  elements, element \<open>i\<close> is \<^verbatim>\<open>0.5f * (1.0f - cosf(2.0f * M_PI * i / (n - 1)))\<close> for every
  \<open>i\<close> in \<open>[0, N-1]\<close>, with \<^verbatim>\<open>M_PI\<close> the literal \<^verbatim>\<open>3.14159265358979323846\<close>, and the first and
  the last element are exactly 0. The formula holds in every arithmetic. In the reference
  arithmetic every element is within \<open>10\<^sup>-\<^sup>6\<close> of the Hanning window
  \<open>0.5 * (1 - cos (2 * \<pi> * i / (N - 1)))\<close> over the reals, and the two ends are exactly 0: the
  argument of \<^verbatim>\<open>cosf\<close> for the last element is within \<open>7 * 10\<^sup>-\<^sup>7\<close> of \<open>2\<pi>\<close> and its cosine
  rounds to 1. (\<open>N < 2\<^sup>3\<^sup>1\<close>, the values an \<^verbatim>\<open>int\<close> can hold.)
\<close>

theorem hanning_window:
  assumes "2 \<le> N" "N < 2 ^ 31"
  shows "length (hanning A (int N)) = N \<and>
     (\<forall>i < N. hanning A (int N) ! i =
        f_mul A (f_lit A 0.5)
          (f_sub A (f_lit A 1)
             (f_cos A (f_of_d A
                (d_div A (d_mul A (d_mul A (d_of_f A (f_lit A 2))
                                           (d_lit A 3.14159265358979323846))
                                  (d_of_int A (int i)))
                         (d_of_int A (int N - 1))))))) \<and>
     (\<forall>i < N. \<bar>hanning ieee (int N) ! i - 0.5 * (1 - cos (2 * pi * real i / real (N - 1)))\<bar>
                 \<le> 1 / 1000000) \<and>
     hanning ieee (int N) ! 0 = 0 \<and> hanning ieee (int N) ! (N - 1) = 0"
proof -
  have k: "1 \<le> int N - 1" "int N - 1 < 2 ^ 53" using assms by simp_all
  have e: "int (N - 1) = int N - 1" using assms(1) by simp
  have "hanning ieee (int N) ! 0 = 0"
    using assms(1) by (simp add: hanning_ieee_nth hanning_angle_0)
  moreover have "hanning ieee (int N) ! (N - 1) = 0"
    using assms(1) cos_hanning_angle [OF k] by (simp add: hanning_ieee_nth e)
  moreover have "length (hanning A (int N)) = N" by (simp add: hanning_def)
  moreover have "\<forall>i < N. \<bar>hanning ieee (int N) ! i
      - 0.5 * (1 - cos (2 * pi * real i / real (N - 1)))\<bar> \<le> 1 / 1000000"
    using hanning_ieee_close [OF _ assms(2)] by simp
  ultimately show ?thesis using hanning_nth [of _ N A] by blast
qed

theorem hanning_window_witness:
  "length (hanning ieee 5) = 5 \<and>
   hanning ieee 5 ! 2 =
      f_mul ieee (f_lit ieee 0.5)
        (f_sub ieee (f_lit ieee 1)
           (f_cos ieee (f_of_d ieee
              (d_div ieee (d_mul ieee (d_mul ieee (d_of_f ieee (f_lit ieee 2))
                                                  (d_lit ieee 3.14159265358979323846))
                                      (d_of_int ieee 2))
                          (d_of_int ieee 4))))) \<and>
   \<bar>hanning ieee 5 ! 2 - 1\<bar> \<le> 1 / 1000000 \<and>
   hanning ieee 5 ! 0 = 0 \<and> hanning ieee 5 ! 4 = 0"
proof -
  have c: "cos (2 * pi * real 2 / real (5 - 1)) = - 1" by simp
  have p: "(2::nat) \<le> 5" "(5::nat) < 2 ^ 31" by simp_all
  note t = hanning_window [of 5 ieee, OF p]
  have t1: "length (hanning ieee (int 5)) = 5" using t by blast
  have t2: "\<forall>i < 5. hanning ieee (int 5) ! i =
        f_mul ieee (f_lit ieee 0.5)
          (f_sub ieee (f_lit ieee 1)
             (f_cos ieee (f_of_d ieee
                (d_div ieee (d_mul ieee (d_mul ieee (d_of_f ieee (f_lit ieee 2))
                                           (d_lit ieee 3.14159265358979323846))
                                  (d_of_int ieee (int i)))
                         (d_of_int ieee (int 5 - 1))))))" using t by blast
  have t3: "\<forall>i < 5. \<bar>hanning ieee (int 5) ! i
      - 0.5 * (1 - cos (2 * pi * real i / real (5 - 1)))\<bar> \<le> 1 / 1000000"
    using t by blast
  have t4: "hanning ieee (int 5) ! 0 = 0" using t by blast
  have t5: "hanning ieee (int 5) ! (5 - 1) = 0" using t by blast
  have m: "\<bar>hanning ieee 5 ! 2 - 1\<bar> \<le> 1 / 1000000"
    using t3 [rule_format, of 2] unfolding c by simp
  have f: "hanning ieee 5 ! 2 =
      f_mul ieee (f_lit ieee 0.5)
        (f_sub ieee (f_lit ieee 1)
           (f_cos ieee (f_of_d ieee
              (d_div ieee (d_mul ieee (d_mul ieee (d_of_f ieee (f_lit ieee 2))
                                                  (d_lit ieee 3.14159265358979323846))
                                      (d_of_int ieee 2))
                          (d_of_int ieee 4)))))"
    using t2 [rule_format, of 2] by simp
  show ?thesis using t1 t4 t5 m f by simp
qed

end
